theory Spec2Isabelle
  imports Main "HOL-Library.Sublist" "HOL-Library.AList" "HOL-Library.Char_ord"
    "HOL-Library.Multiset"
begin

section \<open>Shared vocabulary\<close>

text \<open>
  Go panics are values of the model. A function of the source that can panic returns
  \<open>panic + 'a\<close> (\<open>Inl\<close> the panic), or a \<open>panic option\<close> when it returns nothing.
\<close>

datatype panic =
    SendOnClosedChannel      \<comment> \<open>\<open>ch <- v\<close> on a closed channel\<close>
  | CloseOfClosedChannel     \<comment> \<open>\<open>close(ch)\<close> on a closed channel\<close>
  | InterfaceConversion      \<comment> \<open>a single-value type assertion \<open>x.(T)\<close> that fails\<close>
  | SliceBoundsOutOfRange    \<comment> \<open>\<open>xs[i:j]\<close> or \<open>make\<close> with bounds out of range\<close>

text \<open>
  \<open>interface{}\<close> values that come out of \<open>encoding/json\<close>: decoding into
  \<open>map[string]interface{}\<close> yields nil, bool, float64, string, \<open>[]interface{}\<close> and
  \<open>map[string]interface{}\<close>. Numbers are kept as integers here; no claim reads a fraction.
\<close>

datatype jvalue =
    JNull
  | JBool bool
  | JNum int
  | JStr string
  | JArr "jvalue list"
  | JObj "(string \<times> jvalue) list"

section \<open>Message bus (package bus)\<close>

record Message =
  ID :: string
  Channel :: string
  SenderID :: string
  ChatID :: string
  Content :: string
  Media :: "string list"
  Metadata :: "(string \<times> jvalue) list"
  Timestamp :: int
  SessionKey :: string

type_synonym InboundMessage = Message

record OutboundMessage =
  oChannel :: string
  oChatID :: string
  oContent :: string
  oMedia :: "string list"
  oMetadata :: "(string \<times> jvalue) list"

text \<open>
  A buffered Go channel is its buffer (oldest element first), its capacity and whether it
  has been closed. The bus context is cancelled or not. Calls are atomic steps; a consumer
  blocked in a receive is not part of the state, so a send succeeds exactly when the
  buffer has room.
\<close>

record MessageBus =
  inbound :: "InboundMessage list"
  outbound :: "OutboundMessage list"
  bufferSize :: nat
  ctx_done :: bool
  inbound_closed :: bool
  outbound_closed :: bool

datatype bus_error = ErrBusFull | ContextCanceled

text \<open>\<open>New\<close>: two open channels of capacity \<open>bufferSize\<close> and a live context.\<close>

definition New :: "nat \<Rightarrow> MessageBus" where
  "New n = \<lparr>inbound = [], outbound = [], bufferSize = n, ctx_done = False,
            inbound_closed = False, outbound_closed = False\<rparr>"

text \<open>
  A \<open>select\<close> with several ready cases runs one of them, chosen by the runtime. The
  publish functions have two cases besides \<open>default\<close>: the send and the receive from
  \<open>ctx.Done()\<close>. The choice is a parameter. A send on a closed channel is always ready
  and panics when it is the case that runs.
\<close>

datatype select_pick = PickSend | PickDone

definition PublishInbound ::
  "select_pick \<Rightarrow> InboundMessage \<Rightarrow> MessageBus \<Rightarrow> (panic + bus_error option) \<times> MessageBus" where
  "PublishInbound pick msg b =
     (let send_ready = (inbound_closed b \<or> length (inbound b) < bufferSize b);
          done_ready = ctx_done b
      in if send_ready \<and> (\<not> done_ready \<or> pick = PickSend) then
           (if inbound_closed b then (Inl SendOnClosedChannel, b)
            else (Inr None, b\<lparr>inbound := inbound b @ [msg]\<rparr>))
         else if done_ready then (Inr (Some ContextCanceled), b)
         else (Inr (Some ErrBusFull), b))"

definition PublishOutbound ::
  "select_pick \<Rightarrow> OutboundMessage \<Rightarrow> MessageBus \<Rightarrow> (panic + bus_error option) \<times> MessageBus" where
  "PublishOutbound pick msg b =
     (let send_ready = (outbound_closed b \<or> length (outbound b) < bufferSize b);
          done_ready = ctx_done b
      in if send_ready \<and> (\<not> done_ready \<or> pick = PickSend) then
           (if outbound_closed b then (Inl SendOnClosedChannel, b)
            else (Inr None, b\<lparr>outbound := outbound b @ [msg]\<rparr>))
         else if done_ready then (Inr (Some ContextCanceled), b)
         else (Inr (Some ErrBusFull), b))"

text \<open>
  The consumers block; a call that would block forever with nothing to receive and a
  live caller context is \<open>None\<close>. The flag says whether the caller's context is done; with
  a message buffered and the context done, the runtime picks. A receive from a closed,
  drained channel yields the zero message.
\<close>

definition zero_Message :: Message where
  "zero_Message = \<lparr>ID = [], Channel = [], SenderID = [], ChatID = [], Content = [],
     Media = [], Metadata = [], Timestamp = 0, SessionKey = []\<rparr>"

definition zero_OutboundMessage :: OutboundMessage where
  "zero_OutboundMessage = \<lparr>oChannel = [], oChatID = [], oContent = [], oMedia = [],
     oMetadata = []\<rparr>"

definition ConsumeInbound ::
  "select_pick \<Rightarrow> bool \<Rightarrow> MessageBus \<Rightarrow> ((bus_error + InboundMessage) \<times> MessageBus) option" where
  "ConsumeInbound pick caller_done b =
     (let recv_ready = (inbound b \<noteq> [] \<or> inbound_closed b)
      in if recv_ready \<and> (\<not> caller_done \<or> pick = PickSend) then
           (case inbound b of
              m # ms \<Rightarrow> Some (Inr m, b\<lparr>inbound := ms\<rparr>)
            | [] \<Rightarrow> Some (Inr zero_Message, b))
         else if caller_done then Some (Inl ContextCanceled, b)
         else None)"

definition ConsumeOutbound ::
  "select_pick \<Rightarrow> bool \<Rightarrow> MessageBus \<Rightarrow> ((bus_error + OutboundMessage) \<times> MessageBus) option" where
  "ConsumeOutbound pick caller_done b =
     (let recv_ready = (outbound b \<noteq> [] \<or> outbound_closed b)
      in if recv_ready \<and> (\<not> caller_done \<or> pick = PickSend) then
           (case outbound b of
              m # ms \<Rightarrow> Some (Inr m, b\<lparr>outbound := ms\<rparr>)
            | [] \<Rightarrow> Some (Inr zero_OutboundMessage, b))
         else if caller_done then Some (Inl ContextCanceled, b)
         else None)"

definition InboundSize :: "MessageBus \<Rightarrow> nat" where
  "InboundSize b = length (inbound b)"

definition OutboundSize :: "MessageBus \<Rightarrow> nat" where
  "OutboundSize b = length (outbound b)"

text \<open>
  \<open>Close\<close>: cancel the context, wait for the wait group (nothing ever adds to it, so the
  wait returns at once), close the inbound channel, close the outbound channel. Closing a
  closed channel panics, and the statements after it do not run.
\<close>

definition Close :: "MessageBus \<Rightarrow> panic option \<times> MessageBus" where
  "Close b =
     (let b1 = b\<lparr>ctx_done := True\<rparr>
      in if inbound_closed b1 then (Some CloseOfClosedChannel, b1)
         else (let b2 = b1\<lparr>inbound_closed := True\<rparr>
               in if outbound_closed b2 then (Some CloseOfClosedChannel, b2)
                  else (None, b2\<lparr>outbound_closed := True\<rparr>)))"

text \<open>
  Sequences of calls, as the callers of the bus can issue them: publish, consume and
  \<open>Close\<close>. A call that panics leaves the bus as it was when the panic struck.
\<close>

datatype bus_op =
    PubIn select_pick InboundMessage
  | PubOut select_pick OutboundMessage
  | ConsIn select_pick bool
  | ConsOut select_pick bool
  | BusClose

fun bus_step :: "bus_op \<Rightarrow> MessageBus \<Rightarrow> MessageBus" where
  "bus_step (PubIn p m) b = snd (PublishInbound p m b)"
| "bus_step (PubOut p m) b = snd (PublishOutbound p m b)"
| "bus_step (ConsIn p d) b = (case ConsumeInbound p d b of None \<Rightarrow> b | Some (_, b') \<Rightarrow> b')"
| "bus_step (ConsOut p d) b = (case ConsumeOutbound p d b of None \<Rightarrow> b | Some (_, b') \<Rightarrow> b')"
| "bus_step BusClose b = snd (Close b)"

fun bus_run :: "bus_op list \<Rightarrow> MessageBus \<Rightarrow> MessageBus" where
  "bus_run [] b = b"
| "bus_run (x # xs) b = bus_run xs (bus_step x b)"

text \<open>The three outcomes a publish may have, as relations between the queue before and after.\<close>

definition publish_outcome ::
  "'m list \<Rightarrow> 'm \<Rightarrow> (panic + bus_error option) \<Rightarrow> 'm list \<Rightarrow> bool" where
  "publish_outcome before msg r after =
     (r = Inr None \<and> after = before @ [msg]
      \<or> r = Inr (Some ErrBusFull) \<and> after = before
      \<or> r = Inr (Some ContextCanceled) \<and> after = before)"

text \<open>Both queues within the capacity; and a bus that no \<open>Close\<close> has touched.\<close>

definition bus_bounded :: "MessageBus \<Rightarrow> bool" where
  "bus_bounded b = (length (inbound b) \<le> bufferSize b \<and> length (outbound b) \<le> bufferSize b)"

definition bus_open :: "MessageBus \<Rightarrow> bool" where
  "bus_open b = (\<not> ctx_done b \<and> \<not> inbound_closed b \<and> \<not> outbound_closed b \<and> bus_bounded b)"

section \<open>Tool registry (package tools)\<close>

type_synonym params = "string \<rightharpoonup> jvalue"

text \<open>
  A \<open>Tool\<close> is an interface; the registry calls \<open>Name\<close>, \<open>ValidateParams\<close> and \<open>Execute\<close>.
  An executor acts on the outside world (files, the bus, the network), a state of type
  \<open>'w\<close> that it may change, and returns a result or an \<open>error\<close>, which is its text
  (\<open>Inl\<close>).
\<close>

record 'w Tool =
  tName :: string
  tValidateParams :: "params \<Rightarrow> string list"
  tExecute :: "params \<Rightarrow> 'w \<Rightarrow> (string + string) \<times> 'w"

record 'w ToolRegistry =
  tools :: "string \<rightharpoonup> 'w Tool"

definition NewToolRegistry :: "'w ToolRegistry" where
  "NewToolRegistry = \<lparr>tools = Map.empty\<rparr>"


definition Get :: "'w ToolRegistry \<Rightarrow> string \<Rightarrow> 'w Tool option" where
  "Get r name = tools r name"

text \<open>\<open>strings.Join\<close>, and \<open>%v\<close> of a \<open>[]string\<close>: the elements between brackets, spaces between them.\<close>

fun join :: "string \<Rightarrow> string list \<Rightarrow> string" where
  "join sep [] = []"
| "join sep [x] = x"
| "join sep (x # y # ys) = x @ sep @ join sep (y # ys)"

definition fmt_v_strings :: "string list \<Rightarrow> string" where
  "fmt_v_strings xs = ''['' @ join '' '' xs @ '']''"

definition sq :: string where
  "sq = [CHR 0x27]"

definition not_found_text :: "string \<Rightarrow> string" where
  "not_found_text name = ''Error: Tool '' @ sq @ name @ sq @ '' not found''"

definition invalid_params_text :: "string \<Rightarrow> string list \<Rightarrow> string" where
  "invalid_params_text name errors =
     ''Error: Invalid parameters for tool '' @ sq @ name @ sq @ '': '' @ fmt_v_strings errors"

definition exec_error_text :: "string \<Rightarrow> string \<Rightarrow> string" where
  "exec_error_text name err = ''Error executing '' @ name @ '': '' @ err"

definition Execute :: "'w ToolRegistry \<Rightarrow> string \<Rightarrow> params \<Rightarrow> 'w \<Rightarrow> string \<times> 'w" where
  "Execute r name ps w =
     (case Get r name of
        None \<Rightarrow> (not_found_text name, w)
      | Some tool \<Rightarrow>
          (let errors = tValidateParams tool ps
           in if length errors > 0 then (invalid_params_text name errors, w)
              else (case tExecute tool ps w of
                      (Inl err, w') \<Rightarrow> (exec_error_text name err, w')
                    | (Inr result, w') \<Rightarrow> (result, w'))))"




section \<open>Time and the outside world\<close>

text \<open>
  A \<open>time.Time\<close> is an instant, in nanoseconds since the Unix epoch, and the location it is
  shown in. \<open>After\<close>, \<open>Before\<close> and \<open>Equal\<close> compare instants only. The zero \<open>Time\<close> is
  January 1 of year 1, UTC.
\<close>

datatype location = Local | UTC | Zone string

record Time =
  nanos :: int
  loc :: location

definition zero_Time :: Time where
  "zero_Time = \<lparr>nanos = - 62135596800000000000, loc = UTC\<rparr>"

definition IsZero :: "Time \<Rightarrow> bool" where
  "IsZero t = (nanos t = nanos zero_Time)"

definition After :: "Time \<Rightarrow> Time \<Rightarrow> bool" where
  "After t u = (nanos t > nanos u)"

definition Before :: "Time \<Rightarrow> Time \<Rightarrow> bool" where
  "Before t u = (nanos t < nanos u)"

definition Equal :: "Time \<Rightarrow> Time \<Rightarrow> bool" where
  "Equal t u = (nanos t = nanos u)"

definition In :: "Time \<Rightarrow> location \<Rightarrow> Time" where
  "In t l = t\<lparr>loc := l\<rparr>"

definition Add :: "Time \<Rightarrow> int \<Rightarrow> Time" where
  "Add t d = t\<lparr>nanos := nanos t + d\<rparr>"

definition Hour :: int where
  "Hour = 3600000000000"

definition Millisecond :: int where
  "Millisecond = 1000000"

text \<open>
  Everything outside the process (the clock, the LLM service, what the tools act on) is a
  world state of type \<open>'w\<close>. \<open>time.Now()\<close> reads it; the reading is in the local zone.
\<close>

type_synonym 'w clock = "'w \<Rightarrow> Time \<times> 'w"

section \<open>Sessions (package session)\<close>

record ToolCall =
  tcallID :: string
  tcallType :: string
  tcallName :: string
  tcallArguments :: string

record SMessage =
  smRole :: string
  smContent :: string
  smTimestamp :: string
  smToolCalls :: "ToolCall list"
  smToolCallID :: string
  smName :: string

record Session =
  sKey :: string
  sMessages :: "SMessage list"
  sCreatedAt :: Time
  sUpdatedAt :: Time
  sMetadata :: "(string \<times> jvalue) list"
  sLastConsolidated :: int

text \<open>
  What the session code asks of \<open>encoding/json\<close> and \<open>time\<close> on single values is a
  parameter: how a decoded object becomes a \<open>Message\<close> struct (\<open>json.Marshal\<close> then
  \<open>json.Unmarshal\<close>; \<open>None\<close> is the nil map a JSON \<open>null\<close> decodes to), how a \<open>Message\<close> is
  encoded, and RFC 3339 formatting and parsing (\<open>None\<close> when \<open>time.Parse\<close> fails).
\<close>

record 'w session_env =
  time_Now :: "'w clock"
  unmarshal_message :: "(string \<times> jvalue) list option \<Rightarrow> SMessage"
  marshal_message :: "SMessage \<Rightarrow> jvalue"
  format_rfc3339 :: "Time \<Rightarrow> string"
  parse_rfc3339 :: "string \<Rightarrow> Time option"

definition NewSession :: "'w session_env \<Rightarrow> string \<Rightarrow> 'w \<Rightarrow> Session \<times> 'w" where
  "NewSession env key w =
     (let (t1, w1) = time_Now env w;
          (t2, w2) = time_Now env w1
      in (\<lparr>sKey = key, sMessages = [], sCreatedAt = t1, sUpdatedAt = t2, sMetadata = [],
           sLastConsolidated = 0\<rparr>, w2))"

definition AddMessage ::
  "'w session_env \<Rightarrow> string \<Rightarrow> string \<Rightarrow> ToolCall list \<Rightarrow> Session \<Rightarrow> 'w \<Rightarrow> Session \<times> 'w" where
  "AddMessage env role content toolCalls s w =
     (let (t1, w1) = time_Now env w;
          msg = \<lparr>smRole = role, smContent = content, smTimestamp = format_rfc3339 env t1,
                 smToolCalls = [], smToolCallID = [], smName = []\<rparr>;
          msg1 = (if length toolCalls > 0 then msg\<lparr>smToolCalls := toolCalls\<rparr> else msg);
          (t2, w2) = time_Now env w1
      in (s\<lparr>sMessages := sMessages s @ [msg1], sUpdatedAt := t2\<rparr>, w2))"

text \<open>
  One entry of the history handed to the context builder: the role and content, and the
  optional keys when they are set.
\<close>

record HistoryEntry =
  hRole :: string
  hContent :: string
  hToolCalls :: "ToolCall list"
  hToolCallID :: string
  hName :: string

definition history_entry :: "SMessage \<Rightarrow> HistoryEntry" where
  "history_entry m =
     \<lparr>hRole = smRole m, hContent = smContent m,
      hToolCalls = (if length (smToolCalls m) > 0 then smToolCalls m else []),
      hToolCallID = (if smToolCallID m \<noteq> [] then smToolCallID m else []),
      hName = (if smName m \<noteq> [] then smName m else [])\<rparr>"

text \<open>
  \<open>GetHistory\<close>: the last \<open>maxMessages\<close> messages. With a negative \<open>maxMessages\<close> and a
  message list at all longer than it, \<open>start\<close> exceeds the length and \<open>make\<close> is asked for
  a negative capacity.
\<close>

definition GetHistory :: "Session \<Rightarrow> int \<Rightarrow> panic + HistoryEntry list" where
  "GetHistory s maxMessages =
     (let n = int (length (sMessages s));
          start = (if n > maxMessages then n - maxMessages else 0)
      in if n - start < 0 then Inl SliceBoundsOutOfRange
         else Inr (map history_entry (drop (nat start) (sMessages s))))"

definition Clear :: "'w session_env \<Rightarrow> Session \<Rightarrow> 'w \<Rightarrow> Session \<times> 'w" where
  "Clear env s w =
     (let (t, w1) = time_Now env w
      in (s\<lparr>sMessages := [], sLastConsolidated := 0, sUpdatedAt := t\<rparr>, w1))"

subsection \<open>The JSON decoder, as the loader drives it\<close>

text \<open>
  A session file is read through one \<open>json.Decoder\<close>. What the decoder finds next in its
  input, after white space, is either a complete JSON value or text that is no JSON value
  (a syntax error, or the input ending inside a value); the file is the list of these
  chunks. For text that is no value the chunk keeps its first byte, which \<open>More\<close> looks at.

  The decoder keeps a sticky error: once reading a value fails it sets \<open>dec.err\<close>, leaves
  its read position where it was, and every later \<open>Decode\<close> returns that error at once. A
  complete value that does not fit the target (here anything but an object or \<open>null\<close>, for a
  \<open>map[string]interface{}\<close>) is consumed, and the error is not kept. \<open>More\<close> does not read
  \<open>dec.err\<close>: it reports whether the next byte after white space exists and is neither
  \<open>]\<close> nor \<open>}\<close>.
\<close>

datatype chunk =
    Value jvalue
  | Garbage char

record Decoder =
  buf :: "chunk list"
  err :: bool

definition NewDecoder :: "chunk list \<Rightarrow> Decoder" where
  "NewDecoder file = \<lparr>buf = file, err = False\<rparr>"

definition More :: "Decoder \<Rightarrow> bool" where
  "More d =
     (case buf d of
        [] \<Rightarrow> False
      | Value _ # _ \<Rightarrow> True
      | Garbage c # _ \<Rightarrow> c \<noteq> CHR '']'' \<and> c \<noteq> CHR ''}'')"

datatype decode_result =
    Decoded "(string \<times> jvalue) list option"   \<comment> \<open>\<open>err == nil\<close>; \<open>None\<close> is the nil map\<close>
  | DecodeError

definition Decode :: "Decoder \<Rightarrow> decode_result \<times> Decoder" where
  "Decode d =
     (if err d then (DecodeError, d)
      else (case buf d of
              [] \<Rightarrow> (DecodeError, d\<lparr>err := True\<rparr>)
            | Garbage _ # _ \<Rightarrow> (DecodeError, d\<lparr>err := True\<rparr>)
            | Value v # rest \<Rightarrow>
                (case v of
                   JObj kvs \<Rightarrow> (Decoded (Some kvs), d\<lparr>buf := rest\<rparr>)
                 | JNull \<Rightarrow> (Decoded None, d\<lparr>buf := rest\<rparr>)
                 | _ \<Rightarrow> (DecodeError, d\<lparr>buf := rest\<rparr>))))"

text \<open>
  Indexing the decoded map: a key's value, the last one when the JSON object repeats the
  key; \<open>None\<close> is the nil interface value of an absent key and of a JSON \<open>null\<close>.
\<close>

definition jindex :: "(string \<times> jvalue) list option \<Rightarrow> string \<Rightarrow> jvalue option" where
  "jindex data k =
     (case data of
        None \<Rightarrow> None
      | Some kvs \<Rightarrow> (case map_of (rev kvs) k of
                      None \<Rightarrow> None
                    | Some JNull \<Rightarrow> None
                    | Some v \<Rightarrow> Some v))"

record load_vars =
  lvMessages :: "SMessage list"
  lvMetadata :: "(string \<times> jvalue) list"
  lvCreatedAt :: Time
  lvLastConsolidated :: int

definition load_vars_init :: load_vars where
  "load_vars_init = \<lparr>lvMessages = [], lvMetadata = [], lvCreatedAt = zero_Time,
     lvLastConsolidated = 0\<rparr>"

text \<open>One line that decoded: a metadata record or a message.\<close>

definition load_line ::
  "'w session_env \<Rightarrow> (string \<times> jvalue) list option \<Rightarrow> load_vars \<Rightarrow> panic + load_vars" where
  "load_line env data vars =
     (if jindex data ''_type'' = Some (JStr ''metadata'') then
        (case jindex data ''metadata'' of
           Some (JObj m) \<Rightarrow>
             (let vars1 = vars\<lparr>lvMetadata := m\<rparr>;
                  vars2 = (case jindex data ''created_at'' of
                             Some (JStr createdAtStr) \<Rightarrow>
                               vars1\<lparr>lvCreatedAt :=
                                  (case parse_rfc3339 env createdAtStr of
                                     None \<Rightarrow> zero_Time | Some t \<Rightarrow> t)\<rparr>
                           | _ \<Rightarrow> vars1);
                  vars3 = (case jindex data ''last_consolidated'' of
                             Some (JNum lc) \<Rightarrow> vars2\<lparr>lvLastConsolidated := lc\<rparr>
                           | _ \<Rightarrow> vars2)
              in Inr vars3)
         | _ \<Rightarrow> Inl InterfaceConversion)
      else Inr (vars\<lparr>lvMessages := lvMessages vars @ [unmarshal_message env data]\<rparr>))"

text \<open>
  The loop \<open>for decoder.More() { ... }\<close>. It may run forever, so it is a partial function:
  \<open>None\<close> is not returning.
\<close>

partial_function (option) load_loop ::
  "'w session_env \<Rightarrow> Decoder \<Rightarrow> load_vars \<Rightarrow> (panic + load_vars) option" where
  "load_loop env d vars =
     (if \<not> More d then Some (Inr vars)
      else (case Decode d of
              (DecodeError, d') \<Rightarrow> load_loop env d' vars
            | (Decoded data, d') \<Rightarrow>
                (case load_line env data vars of
                   Inl p \<Rightarrow> Some (Inl p)
                 | Inr vars' \<Rightarrow> load_loop env d' vars')))"

subsection \<open>The session manager\<close>

text \<open>
  The cache is a Go map: an association list with distinct keys. The sessions directory
  is a map from file names to file contents. A key with a byte outside ASCII is mapped
  byte by byte here, where the source maps rune by rune.
\<close>

record SessionManager =
  cache :: "(string \<times> Session) list"
  maxCache :: int
  accessOrder :: "string list"
  files :: "string \<rightharpoonup> chunk list"

definition NewSessionManager :: SessionManager where
  "NewSessionManager = \<lparr>cache = [], maxCache = 1000, accessOrder = [], files = Map.empty\<rparr>"

definition safe_char :: "char \<Rightarrow> char" where
  "safe_char r =
     (if CHR ''a'' \<le> r \<and> r \<le> CHR ''z'' then r
      else if CHR ''A'' \<le> r \<and> r \<le> CHR ''Z'' then r
      else if CHR ''0'' \<le> r \<and> r \<le> CHR ''9'' then r
      else if r = CHR ''-'' \<or> r = CHR ''_'' \<or> r = CHR ''.'' then r
      else CHR ''_'')"

definition safeFilename :: "string \<Rightarrow> string" where
  "safeFilename s = map safe_char (take (min (length s) 200) s)"

definition session_path :: "string \<Rightarrow> string" where
  "session_path key = safeFilename key @ ''.jsonl''"

definition moveToEnd :: "string \<Rightarrow> string list \<Rightarrow> string list" where
  "moveToEnd key order = (if key \<in> set order then remove1 key order @ [key] else order)"

definition evictOldest :: "SessionManager \<Rightarrow> SessionManager" where
  "evictOldest sm =
     (case accessOrder sm of
        [] \<Rightarrow> sm
      | oldestKey # rest \<Rightarrow> sm\<lparr>accessOrder := rest, cache := AList.delete oldestKey (cache sm)\<rparr>)"

definition load ::
  "'w session_env \<Rightarrow> string \<Rightarrow> SessionManager \<Rightarrow> 'w \<Rightarrow> ((panic + Session option) \<times> 'w) option" where
  "load env key sm w =
     (case files sm (session_path key) of
        None \<Rightarrow> Some (Inr None, w)
      | Some file \<Rightarrow>
          (case load_loop env (NewDecoder file) load_vars_init of
             None \<Rightarrow> None
           | Some (Inl p) \<Rightarrow> Some (Inl p, w)
           | Some (Inr vars) \<Rightarrow>
               (let (session, w1) = NewSession env key w;
                    session1 = session\<lparr>sMessages := lvMessages vars, sMetadata := lvMetadata vars,
                                 sLastConsolidated := lvLastConsolidated vars\<rparr>;
                    session2 = (if \<not> IsZero (lvCreatedAt vars)
                                then session1\<lparr>sCreatedAt := lvCreatedAt vars\<rparr> else session1)
                in Some (Inr (Some session2), w1))))"

definition GetOrCreate ::
  "'w session_env \<Rightarrow> string \<Rightarrow> SessionManager \<Rightarrow> 'w
     \<Rightarrow> ((panic + Session) \<times> SessionManager \<times> 'w) option" where
  "GetOrCreate env key sm w =
     (case map_of (cache sm) key of
        Some session \<Rightarrow> Some (Inr session, sm\<lparr>accessOrder := moveToEnd key (accessOrder sm)\<rparr>, w)
      | None \<Rightarrow>
          (case load env key sm w of
             None \<Rightarrow> None
           | Some (Inl p, w1) \<Rightarrow> Some (Inl p, sm, w1)
           | Some (Inr loaded, w1) \<Rightarrow>
               (let (session, w2) = (case loaded of
                                       None \<Rightarrow> NewSession env key w1
                                     | Some s \<Rightarrow> (s, w1));
                    sm1 = (if int (length (cache sm)) \<ge> maxCache sm then evictOldest sm else sm);
                    sm2 = sm1\<lparr>cache := AList.update key session (cache sm1),
                              accessOrder := accessOrder sm1 @ [key]\<rparr>
                in Some (Inr session, sm2, w2))))"

text \<open>
  \<open>Save\<close> rewrites the whole file: the metadata line, then one line per message, and puts
  the session in the cache. Creating the directory or the file can fail; then nothing is
  written and the cache is left alone. The flag says whether they succeed.
\<close>

definition metadata_line :: "'w session_env \<Rightarrow> Session \<Rightarrow> jvalue" where
  "metadata_line env s =
     JObj [(''_type'', JStr ''metadata''),
           (''created_at'', JStr (format_rfc3339 env (sCreatedAt s))),
           (''key'', JStr (sKey s)),
           (''last_consolidated'', JNum (sLastConsolidated s)),
           (''metadata'', JObj (sMetadata s)),
           (''updated_at'', JStr (format_rfc3339 env (sUpdatedAt s)))]"

definition session_file :: "'w session_env \<Rightarrow> Session \<Rightarrow> chunk list" where
  "session_file env s =
     Value (metadata_line env s) # map (\<lambda>m. Value (marshal_message env m)) (sMessages s)"

definition Save :: "'w session_env \<Rightarrow> bool \<Rightarrow> Session \<Rightarrow> SessionManager \<Rightarrow> bool \<times> SessionManager" where
  "Save env io_ok session sm =
     (if \<not> io_ok then (False, sm)
      else (True, sm\<lparr>files := (files sm)(session_path (sKey session) \<mapsto> session_file env session),
                     cache := AList.update (sKey session) session (cache sm)\<rparr>))"

definition Invalidate :: "string \<Rightarrow> SessionManager \<Rightarrow> SessionManager" where
  "Invalidate key sm = sm\<lparr>cache := AList.delete key (cache sm)\<rparr>"

section \<open>LLM provider (package providers)\<close>

record ToolCallRequest =
  trID :: string
  trName :: string
  trArguments :: params

record LLMResponse =
  rContent :: string
  rToolCalls :: "ToolCallRequest list"

definition HasToolCalls :: "LLMResponse \<Rightarrow> bool" where
  "HasToolCalls r = (length (rToolCalls r) > 0)"

record ProviderMessage =
  pRole :: string
  pContent :: string
  pImages :: "string list"
  pTools :: "ToolCallRequest list"
  pToolCallID :: string
  pName :: string

text \<open>
  \<open>Chat\<close> is a call to the outside: its answer depends on the messages and on the world,
  which it may change; \<open>Inl\<close> is the error it returns (its text). The tool schemas, the
  model name and the sampling parameters of a call site are fixed and left out.
\<close>

type_synonym 'w chat = "ProviderMessage list \<Rightarrow> 'w \<Rightarrow> (string + LLMResponse) \<times> 'w"

section \<open>Agent loop (package agent)\<close>

text \<open>
  One element of the message array (a \<open>map[string]interface{}\<close>) with the keys the loop
  writes: role, content, images, tool_calls, tool_call_id, name.
\<close>

record AgentMsg =
  mRole :: string
  mContent :: string
  mImages :: "string list"
  mToolCalls :: "ToolCallRequest list"
  mToolCallID :: string
  mName :: string

definition agent_msg :: "string \<Rightarrow> string \<Rightarrow> AgentMsg" where
  "agent_msg role content =
     \<lparr>mRole = role, mContent = content, mImages = [], mToolCalls = [], mToolCallID = [],
      mName = []\<rparr>"

definition nl :: string where
  "nl = [CHR 0x0A]"

definition HasPrefix :: "string \<Rightarrow> string \<Rightarrow> bool" where
  "HasPrefix s p = prefix p s"

definition HasSuffix :: "string \<Rightarrow> string \<Rightarrow> bool" where
  "HasSuffix s p = suffix p s"

record 'w agent_env =
  senv :: "'w session_env"
  chat :: "'w chat"
  registry :: "'w ToolRegistry"
  maxIterations :: int
  memoryWindow :: int
  buildSystemPrompt :: "'w \<Rightarrow> string"
  ReadLongTerm :: "'w \<Rightarrow> string"
  SetToolContext :: "string \<Rightarrow> string \<Rightarrow> 'w \<Rightarrow> 'w"
  SetToolContextSystem :: "string \<Rightarrow> string \<Rightarrow> 'w \<Rightarrow> 'w"
  io_ok :: "'w \<Rightarrow> bool"

text \<open>
  The state of the agent loop: the session manager, the world, the per-session
  \<open>consolidating\<close> flags, and the background consolidations it has launched (session key
  and \<open>keepCount\<close>), which run later, beside the loop.
\<close>

record 'w AgentLoop =
  sessions :: SessionManager
  world :: 'w
  consolidating :: "string set"
  launched :: "(string \<times> int) list"

subsection \<open>The context builder's message array\<close>

definition add_media :: "string \<times> string list \<Rightarrow> string \<Rightarrow> string \<times> string list" where
  "add_media acc m =
     (let (currentContent, imageList) = acc
      in if HasPrefix m ''http://'' \<or> HasPrefix m ''https://'' then
           (currentContent @ nl @ ''[Media URL: '' @ m @ '']'',
            if HasSuffix m ''.jpg'' \<or> HasSuffix m ''.jpeg'' \<or> HasSuffix m ''.png''
               \<or> HasSuffix m ''.gif'' \<or> HasSuffix m ''.webp''
            then imageList @ [m] else imageList)
         else if HasPrefix m ''data:image/'' then (currentContent, imageList @ [m])
         else (currentContent @ nl @ ''[File: '' @ m @ '']'', imageList))"

text \<open>
  The history's \<open>tool_calls\<close> entry is a \<open>[]ToolCall\<close>; the builder asks for a
  \<open>[]interface{}\<close>, so it never copies it.
\<close>

definition BuildMessages ::
  "string \<Rightarrow> HistoryEntry list \<Rightarrow> string \<Rightarrow> string \<Rightarrow> string \<Rightarrow> string list \<Rightarrow> AgentMsg list" where
  "BuildMessages systemPrompt history currentMessage channel chatID media =
     (let systemContent = systemPrompt
            @ (if channel \<noteq> [] then nl @ nl @ ''Current channel: '' @ channel else [])
            @ (if chatID \<noteq> [] then nl @ ''Chat ID: '' @ chatID else []);
          kept = filter (\<lambda>h. hRole h \<noteq> [] \<and> hContent h \<noteq> []) history;
          entries = map (\<lambda>h. (agent_msg (hRole h) (hContent h))\<lparr>mToolCallID := hToolCallID h\<rparr>) kept;
          (currentContent, imageList) = foldl add_media (currentMessage, []) media
      in [agent_msg ''system'' systemContent] @ entries
         @ [(agent_msg ''user'' currentContent)\<lparr>mImages := imageList\<rparr>])"

subsection \<open>The iteration\<close>

text \<open>
  The conversion to provider messages. The \<open>tool_calls\<close> entries the loop itself appends
  are \<open>[]map[string]interface{}\<close>, not \<open>[]interface{}\<close>, so the branch that would copy
  them is never taken and \<open>Tools\<close> stays empty.
\<close>

definition to_provider :: "AgentMsg \<Rightarrow> ProviderMessage" where
  "to_provider m =
     \<lparr>pRole = mRole m, pContent = mContent m,
      pImages = (if length (mImages m) > 0 then mImages m else []),
      pTools = [],
      pToolCallID = (if mRole m = ''tool'' \<and> mToolCallID m \<noteq> [] then mToolCallID m else []),
      pName = (if mRole m = ''tool'' \<and> mName m \<noteq> [] then mName m else [])\<rparr>"

fun exec_tool_calls ::
  "'w ToolRegistry \<Rightarrow> ToolCallRequest list \<Rightarrow> AgentMsg list \<Rightarrow> 'w \<Rightarrow> AgentMsg list \<times> 'w" where
  "exec_tool_calls r [] messages w = (messages, w)"
| "exec_tool_calls r (tc # tcs) messages w =
     (let (result, w1) = Execute r (trName tc) (trArguments tc) w
      in exec_tool_calls r tcs
           (messages @ [(agent_msg ''tool'' result)\<lparr>mToolCallID := trID tc, mName := trName tc\<rparr>])
           w1)"

text \<open>
  The loop \<open>for iteration < a.maxIterations\<close>, by the number of iterations left. It ends
  with the error of a failed \<open>Chat\<close>, with the content of the first response that has no
  tool call, or with the empty string when the iterations run out.
\<close>

fun agent_iterate ::
  "'w agent_env \<Rightarrow> nat \<Rightarrow> AgentMsg list \<Rightarrow> 'w \<Rightarrow> (string + string) \<times> 'w" where
  "agent_iterate env 0 messages w = (Inr [], w)"
| "agent_iterate env (Suc n) messages w =
     (case chat env (map to_provider messages) w of
        (Inl e, w1) \<Rightarrow> (Inl e, w1)
      | (Inr resp, w1) \<Rightarrow>
          (if HasToolCalls resp then
             (let messages1 = messages
                    @ [(agent_msg ''assistant'' (rContent resp))\<lparr>mToolCalls := rToolCalls resp\<rparr>];
                  (messages2, w2) = exec_tool_calls (registry env) (rToolCalls resp) messages1 w1
              in agent_iterate env n messages2 w2)
           else (Inr (rContent resp), w1)))"

definition runAgentLoop ::
  "'w agent_env \<Rightarrow> AgentMsg list \<Rightarrow> 'w \<Rightarrow> (string + string) \<times> 'w" where
  "runAgentLoop env messages w = agent_iterate env (nat (maxIterations env)) messages w"

subsection \<open>Memory consolidation\<close>

text \<open>Go's integer division by two truncates toward zero.\<close>

definition go_div2 :: "int \<Rightarrow> int" where
  "go_div2 a = (if a \<ge> 0 then a div 2 else - ((- a) div 2))"

definition ConsolidateIfNeeded ::
  "'w agent_env \<Rightarrow> string \<Rightarrow> Session \<Rightarrow> 'w AgentLoop \<Rightarrow> 'w AgentLoop" where
  "ConsolidateIfNeeded env sessionKey sess a =
     (let keepCount0 = go_div2 (memoryWindow env);
          keepCount = (if keepCount0 \<le> 0 then 10 else keepCount0);
          msgCount = int (length (sMessages sess))
      in if msgCount \<le> keepCount then a
         else if msgCount - sLastConsolidated sess < keepCount then a
         else if sessionKey \<in> consolidating a then a
         else a\<lparr>consolidating := insert sessionKey (consolidating a),
                launched := launched a @ [(sessionKey, keepCount)]\<rparr>)"

definition consolidation_line :: "SMessage \<Rightarrow> string" where
  "consolidation_line msg =
     ''['' @ take 16 (smTimestamp msg) @ ''] '' @ smRole msg @ '': '' @ smContent msg"

definition consolidation_prompt :: "string \<Rightarrow> string \<Rightarrow> string" where
  "consolidation_prompt currentMemory conversationText =
     ''Process this conversation and call the save_memory tool with your consolidation.''
     @ nl @ nl @ ''## Current Long-term Memory'' @ nl @ currentMemory
     @ nl @ nl @ ''## Conversation to Process'' @ nl @ conversationText
     @ nl @ nl @ ''Respond by calling the save_memory tool with:'' @ nl
     @ ''1. history_entry: A paragraph summarizing key events/decisions (start with [YYYY-MM-DD HH:MM])''
     @ nl
     @ ''2. memory_update: Updated long-term memory (include existing facts plus new ones, or unchanged if nothing new)''"

definition consolidation_system :: string where
  "consolidation_system =
     ''You are a memory consolidation agent. Call the save_memory tool with your consolidation of the conversation.''"

text \<open>The loop over the response's tool calls: those named \<open>save_memory\<close> are executed.\<close>

fun exec_save_memory :: "'w ToolRegistry \<Rightarrow> ToolCallRequest list \<Rightarrow> 'w \<Rightarrow> 'w" where
  "exec_save_memory r [] w = w"
| "exec_save_memory r (tc # tcs) w =
     (if trName tc = ''save_memory''
      then exec_save_memory r tcs (snd (Execute r (trName tc) (trArguments tc) w))
      else exec_save_memory r tcs w)"

text \<open>The two messages sent to the LLM for a slice of old messages.\<close>

definition consolidation_request :: "'w agent_env \<Rightarrow> SMessage list \<Rightarrow> 'w \<Rightarrow> ProviderMessage list" where
  "consolidation_request env oldMessages w =
     (let lines = map consolidation_line (filter (\<lambda>m. smContent m \<noteq> []) oldMessages);
          currentMemory0 = ReadLongTerm env w;
          currentMemory = (if currentMemory0 = [] then ''(empty)'' else currentMemory0);
          conversationText = join nl lines;
          prompt = consolidation_prompt currentMemory conversationText
      in [\<lparr>pRole = ''system'', pContent = consolidation_system, pImages = [],
            pTools = [], pToolCallID = [], pName = []\<rparr>,
          \<lparr>pRole = ''user'', pContent = prompt, pImages = [],
            pTools = [], pToolCallID = [], pName = []\<rparr>])"

definition consolidation_slice :: "Session \<Rightarrow> int \<Rightarrow> int \<Rightarrow> SMessage list" where
  "consolidation_slice sess startConsolidate endConsolidate =
     take (nat (endConsolidate - startConsolidate)) (drop (nat startConsolidate) (sMessages sess))"

definition consolidation_end :: "Session \<Rightarrow> int \<Rightarrow> int" where
  "consolidation_end sess keepCount =
     (if sLastConsolidated sess + keepCount > int (length (sMessages sess))
      then int (length (sMessages sess))
      else sLastConsolidated sess + keepCount)"

text \<open>
  \<open>consolidateMemory\<close> works on the session object it was started with, which is passed
  and returned by value; the cache entry changes only through \<open>Save\<close>. A negative cursor
  (it is read from the session file) makes the slice expression panic.
\<close>

definition consolidateMemory ::
  "'w agent_env \<Rightarrow> string \<Rightarrow> Session \<Rightarrow> int \<Rightarrow> SessionManager \<Rightarrow> 'w
     \<Rightarrow> (panic + Session) \<times> SessionManager \<times> 'w" where
  "consolidateMemory env sessionKey sess keepCount sm w =
     (let startConsolidate = sLastConsolidated sess;
          endConsolidate = consolidation_end sess keepCount
      in if startConsolidate \<ge> endConsolidate then (Inr sess, sm, w)
         else if startConsolidate < 0 then (Inl SliceBoundsOutOfRange, sm, w)
         else
           (let oldMessages = consolidation_slice sess startConsolidate endConsolidate
            in if length oldMessages = 0 then (Inr sess, sm, w)
               else
                 (case chat env (consolidation_request env oldMessages w) w of
                    (Inl e, w1) \<Rightarrow> (Inr sess, sm, w1)
                  | (Inr resp, w1) \<Rightarrow>
                      (let w2 = (if HasToolCalls resp
                                 then exec_save_memory (registry env) (rToolCalls resp) w1
                                 else w1);
                           sess1 = sess\<lparr>sLastConsolidated := endConsolidate\<rparr>;
                           (saved, sm1) = Save (senv env) (io_ok env w2) sess1 sm
                       in (Inr sess1, sm1, w2)))))"

subsection \<open>One turn\<close>

text \<open>
  \<open>processMessage\<close> returns a response or an error; a panic, and a session load that
  never returns, are the other two ways it can end.
\<close>

datatype turn_result = TurnError string | TurnReply OutboundMessage

definition session_key :: "InboundMessage \<Rightarrow> string" where
  "session_key msg =
     (if SessionKey msg = [] then Channel msg @ '':'' @ ChatID msg else SessionKey msg)"

text \<open>The fixed replies, as UTF-8 bytes where they are not ASCII.\<close>

definition new_session_text :: string where
  "new_session_text =
     [CHR 0xE6, CHR 0x96, CHR 0xB0, CHR 0xE4, CHR 0xBC, CHR 0x9A, CHR 0xE8, CHR 0xAF, CHR 0x9D,
      CHR 0xE5, CHR 0xB7, CHR 0xB2, CHR 0xE5, CHR 0x88, CHR 0x9B, CHR 0xE5, CHR 0xBB, CHR 0xBA]"

definition help_text :: string where
  "help_text =
     [CHR 0xF0, CHR 0x9F, CHR 0x90, CHR 0x88] @ '' nanobot commands:'' @ nl
     @ ''/new '' @ [CHR 0xE2, CHR 0x80, CHR 0x94] @ '' Start a new conversation'' @ nl
     @ ''/help '' @ [CHR 0xE2, CHR 0x80, CHR 0x94] @ '' Show available commands''"

definition no_response_text :: string where
  "no_response_text = ''I'' @ sq @ ''ve completed processing but have no response to give.''"

definition background_done_text :: string where
  "background_done_text = ''Background task completed.''"

definition turn_messages ::
  "'w agent_env \<Rightarrow> HistoryEntry list \<Rightarrow> string \<Rightarrow> string \<Rightarrow> string \<Rightarrow> string list \<Rightarrow> 'w
     \<Rightarrow> AgentMsg list" where
  "turn_messages env history content channel chatID media w =
     BuildMessages (buildSystemPrompt env w) history content channel chatID media"

text \<open>
  The end of a turn: the two \<open>AddMessage\<close> calls, \<open>Save\<close>, and the reply. The session
  object is the one the cache holds under the key (\<open>GetOrCreate\<close> has just returned it from
  there or put it there), so what \<open>AddMessage\<close> appends is in the cached session too,
  whether or not \<open>Save\<close> succeeds.
\<close>

definition store_turn ::
  "'w agent_env \<Rightarrow> string \<Rightarrow> string \<Rightarrow> string \<Rightarrow> Session \<Rightarrow> SessionManager \<Rightarrow> 'w
     \<Rightarrow> Session \<times> SessionManager \<times> 'w" where
  "store_turn env key userContent finalContent sess sm w =
     (let (sess1, w1) = AddMessage (senv env) ''user'' userContent [] sess w;
          (sess2, w2) = AddMessage (senv env) ''assistant'' finalContent [] sess1 w1;
          sm1 = sm\<lparr>cache := AList.update key sess2 (cache sm)\<rparr>;
          (saved, sm2) = Save (senv env) (io_ok env w2) sess2 sm1
      in (sess2, sm2, w2))"

text \<open>A system message (a subagent's announcement): the origin is read from the chat id.\<close>

definition origin_channel :: "string \<Rightarrow> string" where
  "origin_channel chatID =
     (if CHR '':'' \<in> set chatID then takeWhile (\<lambda>c. c \<noteq> CHR '':'') chatID else ''cli'')"

definition origin_chat_id :: "string \<Rightarrow> string" where
  "origin_chat_id chatID =
     (if CHR '':'' \<in> set chatID then tl (dropWhile (\<lambda>c. c \<noteq> CHR '':'') chatID) else chatID)"

definition processSystemMessage ::
  "'w agent_env \<Rightarrow> InboundMessage \<Rightarrow> 'w AgentLoop
     \<Rightarrow> ((panic + turn_result) \<times> 'w AgentLoop) option" where
  "processSystemMessage env msg a =
     (let originChannel = origin_channel (ChatID msg);
          originChatID = origin_chat_id (ChatID msg);
          sessionKey = originChannel @ '':'' @ originChatID
      in case GetOrCreate (senv env) sessionKey (sessions a) (world a) of
           None \<Rightarrow> None
         | Some (Inl p, sm1, w1) \<Rightarrow> Some (Inl p, a\<lparr>sessions := sm1, world := w1\<rparr>)
         | Some (Inr sess, sm1, w1) \<Rightarrow>
             (let w2 = SetToolContextSystem env originChannel originChatID w1
              in case GetHistory sess (memoryWindow env) of
                   Inl p \<Rightarrow> Some (Inl p, a\<lparr>sessions := sm1, world := w2\<rparr>)
                 | Inr history \<Rightarrow>
                     (case agent_iterate env (nat (maxIterations env))
                             (turn_messages env history (Content msg) originChannel originChatID [] w2)
                             w2 of
                        (Inl e, w3) \<Rightarrow> Some (Inr (TurnError e), a\<lparr>sessions := sm1, world := w3\<rparr>)
                      | (Inr finalContent0, w3) \<Rightarrow>
                          (let finalContent = (if finalContent0 = [] then background_done_text
                                               else finalContent0);
                               (sess2, sm2, w4) = store_turn env sessionKey
                                  (''[System: '' @ SenderID msg @ ''] '' @ Content msg)
                                  finalContent sess sm1 w3
                           in Some (Inr (TurnReply \<lparr>oChannel = originChannel, oChatID = originChatID,
                                  oContent = finalContent, oMedia = [], oMetadata = []\<rparr>),
                                a\<lparr>sessions := sm2, world := w4\<rparr>)))))"

definition processMessage ::
  "'w agent_env \<Rightarrow> InboundMessage \<Rightarrow> 'w AgentLoop
     \<Rightarrow> ((panic + turn_result) \<times> 'w AgentLoop) option" where
  "processMessage env msg a =
     (if Channel msg = ''system'' then processSystemMessage env msg a
      else
        (let key = session_key msg
         in case GetOrCreate (senv env) key (sessions a) (world a) of
              None \<Rightarrow> None
            | Some (Inl p, sm1, w1) \<Rightarrow> Some (Inl p, a\<lparr>sessions := sm1, world := w1\<rparr>)
            | Some (Inr sess, sm1, w1) \<Rightarrow>
                (let w2 = SetToolContext env (Channel msg) (ChatID msg) w1
                 in if Content msg = ''/new'' then
                      (let (newSession, w3) = NewSession (senv env) key w2;
                           (t1, w4) = time_Now (senv env) w3;
                           (t2, w5) = time_Now (senv env) w4;
                           newSession1 = newSession\<lparr>sCreatedAt := t1, sUpdatedAt := t2\<rparr>;
                           (saved, sm2) = Save (senv env) (io_ok env w5) newSession1 sm1;
                           sm3 = Invalidate key sm2
                       in Some (Inr (TurnReply \<lparr>oChannel = Channel msg, oChatID = ChatID msg,
                              oContent = new_session_text, oMedia = [], oMetadata = []\<rparr>),
                            a\<lparr>sessions := sm3, world := w5\<rparr>))
                    else if Content msg = ''/help'' then
                      Some (Inr (TurnReply \<lparr>oChannel = Channel msg, oChatID = ChatID msg,
                              oContent = help_text, oMedia = [], oMetadata = []\<rparr>),
                            a\<lparr>sessions := sm1, world := w2\<rparr>)
                    else
                      (case GetHistory sess (memoryWindow env) of
                         Inl p \<Rightarrow> Some (Inl p, a\<lparr>sessions := sm1, world := w2\<rparr>)
                       | Inr history \<Rightarrow>
                           (case runAgentLoop env
                                   (turn_messages env history (Content msg) (Channel msg)
                                      (ChatID msg) (Media msg) w2)
                                   w2 of
                              (Inl e, w3) \<Rightarrow>
                                Some (Inr (TurnError e), a\<lparr>sessions := sm1, world := w3\<rparr>)
                            | (Inr finalContent0, w3) \<Rightarrow>
                                (let finalContent = (if finalContent0 = [] then no_response_text
                                                     else finalContent0);
                                     (sess2, sm2, w4) = store_turn env key (Content msg)
                                        finalContent sess sm1 w3;
                                     a1 = ConsolidateIfNeeded env key sess2
                                            (a\<lparr>sessions := sm2, world := w4\<rparr>)
                                 in Some (Inr (TurnReply \<lparr>oChannel = Channel msg,
                                        oChatID = ChatID msg, oContent = finalContent,
                                        oMedia = [], oMetadata = Metadata msg\<rparr>), a1)))))))"

definition NewAgentLoop :: "'w \<Rightarrow> 'w AgentLoop" where
  "NewAgentLoop w = \<lparr>sessions = NewSessionManager, world = w, consolidating = {}, launched = []\<rparr>"

text \<open>\<open>ProcessDirect\<close>: the same pipeline on a message from channel \<open>cli\<close>, chat \<open>direct\<close>.\<close>

definition direct_message :: "string \<Rightarrow> InboundMessage" where
  "direct_message content =
     \<lparr>ID = [], Channel = ''cli'', SenderID = ''user'', ChatID = ''direct'', Content = content,
      Media = [], Metadata = [], Timestamp = 0, SessionKey = []\<rparr>"

section \<open>Subagent manager (package agent, subagent.go)\<close>

text \<open>
  A task's context is a handle; the manager state records which handles have been
  cancelled. \<open>Chat\<close> is given the context, so the oracle is told whether it is done.
\<close>

record subagentTask =
  stID :: string
  stLabel :: string
  stTask :: string
  stOriginChannel :: string
  stOriginChatID :: string
  stContext :: nat

record 'w subagent_env =
  sa_chat :: "bool \<Rightarrow> 'w chat"
  sa_registry :: "'w ToolRegistry"
  sa_maxIterations :: int
  sa_buildSubagentPrompt :: "string \<Rightarrow> 'w \<Rightarrow> string"
  sa_Now :: "'w clock"

record 'w SubagentManager =
  runningTasks :: "string \<rightharpoonup> subagentTask"
  contexts :: nat
  cancelled :: "nat set"
  mbus :: MessageBus
  mworld :: 'w

definition NewSubagentManager :: "MessageBus \<Rightarrow> 'w \<Rightarrow> 'w SubagentManager" where
  "NewSubagentManager b w =
     \<lparr>runningTasks = Map.empty, contexts = 0, cancelled = {}, mbus = b, mworld = w\<rparr>"

text \<open>\<open>%x\<close> of an \<open>int64\<close>: lower-case hexadecimal, no leading zeros, a minus sign if negative.\<close>

definition hex_digit :: "nat \<Rightarrow> char" where
  "hex_digit d = (''0123456789abcdef'') ! (d mod 16)"

definition hex_nat :: "nat \<Rightarrow> string" where
  "hex_nat n =
     (let ds = dropWhile (\<lambda>c. c = CHR ''0'')
                 (map (\<lambda>i. hex_digit (n div 16 ^ i)) (rev [0..<16]))
      in if ds = [] then ''0'' else ds)"

definition fmt_x :: "int \<Rightarrow> string" where
  "fmt_x n = (if n < 0 then ''-'' @ hex_nat (nat (- n)) else hex_nat (nat n))"

definition generateTaskID :: "'w subagent_env \<Rightarrow> 'w \<Rightarrow> (panic + string) \<times> 'w" where
  "generateTaskID env w =
     (let (t, w1) = sa_Now env w;
          digits = fmt_x (nanos t)
      in if length digits < 8 then (Inl SliceBoundsOutOfRange, w1)
         else (Inr (take 8 digits), w1))"

text \<open>The arguments of a \<open>go s.runSubagent(...)\<close> statement: the goroutine runs later.\<close>

record subagent_start =
  gCtx :: nat
  gTaskID :: string
  gLabel :: string
  gTask :: string
  gOriginChannel :: string
  gOriginChatID :: string

definition Spawn ::
  "'w subagent_env \<Rightarrow> string \<Rightarrow> string \<Rightarrow> string \<Rightarrow> string \<Rightarrow> 'w SubagentManager
     \<Rightarrow> (panic + string \<times> subagent_start) \<times> 'w SubagentManager" where
  "Spawn env task label originChannel originChatID m =
     (case generateTaskID env (mworld m) of
        (Inl p, w1) \<Rightarrow> (Inl p, m\<lparr>mworld := w1\<rparr>)
      | (Inr taskID, w1) \<Rightarrow>
          (let displayLabel0 = (if length task > 30 then take 30 task @ ''...'' else task);
               displayLabel = (if label \<noteq> [] then label else displayLabel0);
               ctx = contexts m;
               subtask = \<lparr>stID = taskID, stLabel = displayLabel, stTask = task,
                          stOriginChannel = originChannel, stOriginChatID = originChatID,
                          stContext = ctx\<rparr>;
               m1 = m\<lparr>runningTasks := (runningTasks m)(taskID \<mapsto> subtask),
                      contexts := Suc ctx, mworld := w1\<rparr>
           in (Inr (''Subagent ['' @ displayLabel @ ''] started (id: '' @ taskID
                      @ ''). I'' @ sq @ ''ll notify you when it completes.'',
                    \<lparr>gCtx = ctx, gTaskID = taskID, gLabel = displayLabel, gTask = task,
                     gOriginChannel = originChannel, gOriginChatID = originChatID\<rparr>),
               m1)))"

definition announce_content :: "string \<Rightarrow> string \<Rightarrow> string \<Rightarrow> string \<Rightarrow> string" where
  "announce_content label statusText task result =
     ''[Subagent '' @ sq @ label @ sq @ '' '' @ statusText @ '']'' @ nl @ nl
     @ ''Task: '' @ task @ nl @ nl
     @ ''Result:'' @ nl @ result @ nl @ nl
     @ ''Summarize this naturally for the user. Keep it brief (1-2 sentences). Do not mention technical details like \"subagent\" or task IDs.''"

text \<open>
  \<open>announceResult\<close> publishes on the bus and drops the error \<open>PublishInbound\<close> returns; a
  panic of the send is not dropped. Its task id, label, task and origin arguments are the
  fields of the goroutine's start record.
\<close>

definition announceResult ::
  "'w subagent_env \<Rightarrow> select_pick \<Rightarrow> subagent_start \<Rightarrow> string \<Rightarrow> string
     \<Rightarrow> 'w SubagentManager \<Rightarrow> panic option \<times> 'w SubagentManager" where
  "announceResult env pick g result status m =
     (let statusText = (if status = ''error'' then ''failed'' else ''completed successfully'');
          (t, w1) = sa_Now env (mworld m);
          msg = \<lparr>ID = [], Channel = ''system'', SenderID = ''subagent'',
                 ChatID = gOriginChannel g @ '':'' @ gOriginChatID g,
                 Content = announce_content (gLabel g) statusText (gTask g) result,
                 Media = [], Metadata = [], Timestamp = nanos t, SessionKey = []\<rparr>
      in case PublishInbound pick msg (mbus m) of
           (Inl p, b1) \<Rightarrow> (Some p, m\<lparr>mbus := b1, mworld := w1\<rparr>)
         | (Inr e, b1) \<Rightarrow> (None, m\<lparr>mbus := b1, mworld := w1\<rparr>))"

definition sub_to_provider :: "AgentMsg \<Rightarrow> ProviderMessage" where
  "sub_to_provider m =
     \<lparr>pRole = mRole m, pContent = mContent m, pImages = [], pTools = [], pToolCallID = [],
      pName = []\<rparr>"

text \<open>
  The subagent's loop \<open>for iteration := 0; iteration < s.maxIterations; iteration++\<close>, by
  the iterations left: the error of a failed \<open>Chat\<close> (\<open>Inl\<close>), or the final result, which is
  empty when the iterations run out.
\<close>

fun subagent_iterate ::
  "'w subagent_env \<Rightarrow> bool \<Rightarrow> nat \<Rightarrow> AgentMsg list \<Rightarrow> 'w \<Rightarrow> (string + string) \<times> 'w" where
  "subagent_iterate env done 0 messages w = (Inr [], w)"
| "subagent_iterate env done (Suc n) messages w =
     (case sa_chat env done (map sub_to_provider messages) w of
        (Inl e, w1) \<Rightarrow> (Inl e, w1)
      | (Inr resp, w1) \<Rightarrow>
          (if HasToolCalls resp then
             (let messages1 = messages
                    @ [(agent_msg ''assistant'' (rContent resp))\<lparr>mToolCalls := rToolCalls resp\<rparr>];
                  (messages2, w2) = exec_tool_calls (sa_registry env) (rToolCalls resp) messages1 w1
              in subagent_iterate env done n messages2 w2)
           else (Inr (rContent resp), w1)))"

definition no_final_text :: string where
  "no_final_text = ''Task completed but no final response was generated.''"

definition runSubagent ::
  "'w subagent_env \<Rightarrow> select_pick \<Rightarrow> subagent_start \<Rightarrow> 'w SubagentManager
     \<Rightarrow> panic option \<times> 'w SubagentManager" where
  "runSubagent env pick g m =
     (let systemPrompt = sa_buildSubagentPrompt env (gTask g) (mworld m);
          messages = [agent_msg ''system'' systemPrompt, agent_msg ''user'' (gTask g)]
      in case subagent_iterate env (gCtx g \<in> cancelled m) (nat (sa_maxIterations env)) messages
                (mworld m) of
           (Inl e, w1) \<Rightarrow>
             announceResult env pick g (''Error: '' @ e) ''error'' (m\<lparr>mworld := w1\<rparr>)
         | (Inr finalResult0, w1) \<Rightarrow>
             (let finalResult = (if finalResult0 = [] then no_final_text else finalResult0)
              in case announceResult env pick g finalResult ''ok'' (m\<lparr>mworld := w1\<rparr>) of
                   (Some p, m1) \<Rightarrow> (Some p, m1)
                 | (None, m1) \<Rightarrow>
                     (None, m1\<lparr>runningTasks := (runningTasks m1)(gTaskID g := None)\<rparr>)))"

definition CancelTask :: "string \<Rightarrow> 'w SubagentManager \<Rightarrow> bool \<times> 'w SubagentManager" where
  "CancelTask taskID m =
     (case runningTasks m taskID of
        Some task \<Rightarrow>
          (True, m\<lparr>cancelled := insert (stContext task) (cancelled m),
                    runningTasks := (runningTasks m)(taskID := None)\<rparr>)
      | None \<Rightarrow> (False, m))"

section \<open>Cron service (package cron)\<close>

record Schedule =
  Kind :: string
  EveryMs :: int
  CronExpr :: string
  TZ :: string
  AtMs :: int

record Job =
  jID :: string
  jName :: string
  jMessage :: string
  jSchedule :: Schedule
  jChannel :: string
  jTo :: string
  jDeliver :: bool
  jDeleteAfterRun :: bool
  jCreatedAt :: Time
  jNextRun :: Time
  jTriggerAgent :: bool
  jAgentCommand :: string

text \<open>
  What the service asks of the clock, of the cron library and of the time zone database:
  the instant \<open>time.Now()\<close> reads, \<open>parser.Parse\<close> (\<open>None\<close> is its error), \<open>sched.Next\<close> and
  \<open>time.LoadLocation\<close> (\<open>None\<close> is its error).
\<close>

record ('w, 's) cron_env =
  cClock :: "'w \<Rightarrow> int \<times> 'w"
  cronParse :: "string \<Rightarrow> 's option"
  cronNext :: "'s \<Rightarrow> Time \<Rightarrow> Time"
  LoadLocation :: "string \<Rightarrow> location option"

definition Now :: "('w, 's) cron_env \<Rightarrow> 'w clock" where
  "Now env w = (let (n, w1) = cClock env w in (\<lparr>nanos = n, loc = Local\<rparr>, w1))"

text \<open>An \<open>int64\<close> product wraps around.\<close>

definition int64 :: "int \<Rightarrow> int" where
  "int64 x = (x + 2 ^ 63) mod 2 ^ 64 - 2 ^ 63"

definition calculateCronNextRun :: "('w, 's) cron_env \<Rightarrow> Schedule \<Rightarrow> Time \<Rightarrow> Time" where
  "calculateCronNextRun env schedule now =
     (case cronParse env (CronExpr schedule) of
        None \<Rightarrow> Add now (1 * Hour)
      | Some sched \<Rightarrow>
          (let baseTime = (if TZ schedule \<noteq> [] then
                             (case LoadLocation env (TZ schedule) of
                                None \<Rightarrow> now
                              | Some l \<Rightarrow> In now l)
                           else now)
           in cronNext env sched baseTime))"

definition calculateNextRun :: "('w, 's) cron_env \<Rightarrow> Schedule \<Rightarrow> 'w \<Rightarrow> Time \<times> 'w" where
  "calculateNextRun env schedule w =
     (let (now, w1) = Now env w
      in (if Kind schedule = ''every'' then Add now (int64 (EveryMs schedule * Millisecond))
          else if Kind schedule = ''at'' then In \<lparr>nanos = AtMs schedule * 1000000, loc = Local\<rparr> (loc now)
          else if Kind schedule = ''cron'' then calculateCronNextRun env schedule now
          else now, w1))"

subsection \<open>The heap of jobs\<close>

text \<open>
  \<open>jobHeap\<close> is a slice of items, each holding a pointer to its job (and an index that is
  only ever written). Here it is the list of the job pointers; the jobs themselves are in a
  store. \<open>Less\<close> compares the \<open>NextRun\<close> instants of the jobs at two positions; \<open>key\<close> gives
  the instant of a job pointer.
\<close>

definition hLess :: "(nat \<Rightarrow> int) \<Rightarrow> nat list \<Rightarrow> nat \<Rightarrow> nat \<Rightarrow> bool" where
  "hLess key h i j = (key (h ! i) < key (h ! j))"

definition hSwap :: "nat list \<Rightarrow> nat \<Rightarrow> nat \<Rightarrow> nat list" where
  "hSwap h i j = h[i := h ! j, j := h ! i]"

text \<open>\<open>container/heap\<close>: \<open>up\<close>, \<open>down\<close>, \<open>Push\<close> and \<open>Pop\<close>, on top of \<open>Less\<close> and \<open>Swap\<close>.\<close>

function up :: "(nat \<Rightarrow> int) \<Rightarrow> nat list \<Rightarrow> nat \<Rightarrow> nat list" where
  "up key h j =
     (let i = (j - 1) div 2
      in if i = j \<or> \<not> hLess key h j i then h else up key (hSwap h i j) i)"
  by pat_completeness auto
termination
  by (relation "measure (\<lambda>(key, h, j). j)") auto

text \<open>The child \<open>down\<close> compares with: the left one, \<open>j1\<close>, or the right one when it is smaller.\<close>

definition smaller_child :: "(nat \<Rightarrow> int) \<Rightarrow> nat list \<Rightarrow> nat \<Rightarrow> nat \<Rightarrow> nat" where
  "smaller_child key h j1 n = (if j1 + 1 < n \<and> hLess key h (j1 + 1) j1 then j1 + 1 else j1)"

function down :: "(nat \<Rightarrow> int) \<Rightarrow> nat list \<Rightarrow> nat \<Rightarrow> nat \<Rightarrow> nat list" where
  "down key h i n =
     (let j1 = 2 * i + 1
      in if j1 \<ge> n then h
         else (let j = smaller_child key h j1 n
               in if \<not> hLess key h j i then h else down key (hSwap h i j) j n))"
  by pat_completeness auto
termination
  by (relation "measure (\<lambda>(key, h, i, n). n - i)") (auto simp: smaller_child_def)

definition heap_Push :: "(nat \<Rightarrow> int) \<Rightarrow> nat list \<Rightarrow> nat \<Rightarrow> nat list" where
  "heap_Push key h x = up key (h @ [x]) (length h)"

text \<open>\<open>heap.Pop\<close> on a non-empty heap: what is left, the former top removed.\<close>

definition heap_Pop :: "(nat \<Rightarrow> int) \<Rightarrow> nat list \<Rightarrow> nat list" where
  "heap_Pop key h =
     (let n = length h - 1
      in butlast (down key (hSwap h 0 n) 0 n))"

subsection \<open>The service\<close>

text \<open>
  The state: the job objects by pointer, the by-id map \<open>jobs\<close>, the heap, the world, and
  the executions launched by \<open>checkAndRun\<close> (each \<open>go func() { ... c.executeJob(&jobCopy) }()\<close>),
  oldest first: the pointer the job was copied from, and the copy.
\<close>

record 'w CronService =
  jobStore :: "nat \<Rightarrow> Job"
  jobs :: "string \<rightharpoonup> nat"
  heap :: "nat list"
  launchedJobs :: "(nat \<times> Job) list"
  cworld :: 'w

definition job_key :: "(nat \<Rightarrow> Job) \<Rightarrow> nat \<Rightarrow> int" where
  "job_key store p = nanos (jNextRun (store p))"

definition NewCronService :: "(nat \<Rightarrow> Job) \<Rightarrow> 'w \<Rightarrow> 'w CronService" where
  "NewCronService store w =
     \<lparr>jobStore = store, jobs = Map.empty, heap = [], launchedJobs = [], cworld = w\<rparr>"

text \<open>\<open>%d\<close> of an \<open>int64\<close>.\<close>

definition dec_nat :: "nat \<Rightarrow> string" where
  "dec_nat n =
     (let ds = dropWhile (\<lambda>c. c = CHR ''0'')
                 (map (\<lambda>i. (''0123456789'') ! (n div 10 ^ i mod 10)) (rev [0..<19]))
      in if ds = [] then ''0'' else ds)"

definition fmt_d :: "int \<Rightarrow> string" where
  "fmt_d n = (if n < 0 then ''-'' @ dec_nat (nat (- n)) else dec_nat (nat n))"

text \<open>\<open>AddJob\<close> is given the pointer to the caller's job object.\<close>

definition AddJob :: "('w, 's) cron_env \<Rightarrow> nat \<Rightarrow> 'w CronService \<Rightarrow> 'w CronService" where
  "AddJob env job c =
     (let (now, w1) = Now env (cworld c);
          j1 = (jobStore c job)\<lparr>jID := ''job_'' @ fmt_d (nanos now), jCreatedAt := now\<rparr>;
          (t, w2) = calculateNextRun env (jSchedule j1) w1;
          j2 = j1\<lparr>jNextRun := t\<rparr>;
          store = (jobStore c)(job := j2)
      in c\<lparr>jobStore := store,
            jobs := (jobs c)(jID j2 \<mapsto> job),
            heap := heap_Push (job_key store) (heap c) job,
            cworld := w2\<rparr>)"

definition ListJobs :: "'w CronService \<Rightarrow> nat set" where
  "ListJobs c = ran (jobs c)"

text \<open>
  One round of the loop of \<open>checkAndRun\<close> on a due top item: pop it, launch its execution
  on a copy, then delete it from the map or recompute its next run and push it back.
\<close>

definition run_due :: "('w, 's) cron_env \<Rightarrow> 'w CronService \<Rightarrow> 'w CronService" where
  "run_due env c =
     (let item = hd (heap c);
          h1 = heap_Pop (job_key (jobStore c)) (heap c);
          jobCopy = jobStore c item;
          c1 = c\<lparr>heap := h1, launchedJobs := launchedJobs c @ [(item, jobCopy)]\<rparr>
      in if jDeleteAfterRun jobCopy \<or> Kind (jSchedule jobCopy) = ''at'' then
           c1\<lparr>jobs := (jobs c1)(jID jobCopy := None)\<rparr>
         else
           (let (t, w1) = calculateNextRun env (jSchedule jobCopy) (cworld c1);
                store = (jobStore c1)(item := jobCopy\<lparr>jNextRun := t\<rparr>)
            in c1\<lparr>jobStore := store,
                   heap := heap_Push (job_key store) h1 item,
                   cworld := w1\<rparr>))"

text \<open>
  The loop \<open>for c.heap.Len() > 0 { ... }\<close> with the \<open>now\<close> read on entry. Nothing bounds the
  number of rounds (a job whose recomputed next run is not after \<open>now\<close> is due again), so
  the loop takes fuel: \<open>None\<close> is a run that has not ended within it.
\<close>

fun checkAndRun_loop ::
  "nat \<Rightarrow> ('w, 's) cron_env \<Rightarrow> Time \<Rightarrow> 'w CronService \<Rightarrow> 'w CronService option" where
  "checkAndRun_loop 0 env now c = None"
| "checkAndRun_loop (Suc k) env now c =
     (if length (heap c) > 0 then
        (if After (jNextRun (jobStore c (hd (heap c)))) now then Some c
         else checkAndRun_loop k env now (run_due env c))
      else Some c)"

definition checkAndRun ::
  "nat \<Rightarrow> ('w, 's) cron_env \<Rightarrow> 'w CronService \<Rightarrow> 'w CronService option" where
  "checkAndRun fuel env c =
     (let (now, w1) = Now env (cworld c)
      in checkAndRun_loop fuel env now (c\<lparr>cworld := w1\<rparr>))"

subsection \<open>Heap order and well-formed states\<close>

text \<open>
  The first \<open>n\<close> positions of \<open>h\<close> are in heap order when no position has a key below
  its parent's; \<open>heap_except_up\<close> and \<open>heap_except_down\<close> are the states inside \<open>up\<close> and
  \<open>down\<close>, where one position may be out of order with its parent, or with its children.
\<close>

definition heap_upto :: "(nat \<Rightarrow> int) \<Rightarrow> nat list \<Rightarrow> nat \<Rightarrow> bool" where
  "heap_upto key h n = (\<forall>i. 0 < i \<and> i < n \<longrightarrow> key (h ! ((i - 1) div 2)) \<le> key (h ! i))"

definition is_heap :: "(nat \<Rightarrow> int) \<Rightarrow> nat list \<Rightarrow> bool" where
  "is_heap key h = heap_upto key h (length h)"

definition heap_except_up :: "(nat \<Rightarrow> int) \<Rightarrow> nat list \<Rightarrow> nat \<Rightarrow> nat \<Rightarrow> bool" where
  "heap_except_up key h n j =
     ((\<forall>i. 0 < i \<and> i < n \<and> i \<noteq> j \<longrightarrow> key (h ! ((i - 1) div 2)) \<le> key (h ! i))
      \<and> (\<forall>i. 0 < i \<and> i < n \<and> (i - 1) div 2 = j \<and> 0 < j \<longrightarrow>
             key (h ! ((j - 1) div 2)) \<le> key (h ! i)))"

definition heap_except_down :: "(nat \<Rightarrow> int) \<Rightarrow> nat list \<Rightarrow> nat \<Rightarrow> nat \<Rightarrow> bool" where
  "heap_except_down key h n i =
     ((\<forall>c. 0 < c \<and> c < n \<and> (c - 1) div 2 \<noteq> i \<longrightarrow> key (h ! ((c - 1) div 2)) \<le> key (h ! c))
      \<and> (\<forall>c. 0 < c \<and> c < n \<and> (c - 1) div 2 = i \<and> 0 < i \<longrightarrow>
             key (h ! ((i - 1) div 2)) \<le> key (h ! c)))"

text \<open>
  A well-formed service: no job is twice in the heap, the heap is in heap order by
  \<open>NextRun\<close>, and every entry of the by-id map is under the id of the job it points to.
\<close>

definition cron_wf :: "'w CronService \<Rightarrow> bool" where
  "cron_wf c =
     (distinct (heap c) \<and> is_heap (job_key (jobStore c)) (heap c)
      \<and> (\<forall>k p. jobs c k = Some p \<longrightarrow> jID (jobStore c p) = k))"

text \<open>
  A job is due when its \<open>NextRun\<close> is not after \<open>now\<close>; it is single-shot when the loop
  deletes it instead of pushing it back. \<open>fired p c\<close> counts the executions launched for
  the job at pointer \<open>p\<close>, and \<open>clock_after env n w\<close> is the world after \<open>n\<close> readings of
  the clock.
\<close>

definition due :: "Time \<Rightarrow> Job \<Rightarrow> bool" where
  "due now j = (\<not> After (jNextRun j) now)"

definition single_shot :: "Job \<Rightarrow> bool" where
  "single_shot j = (jDeleteAfterRun j \<or> Kind (jSchedule j) = ''at'')"

definition fired :: "nat \<Rightarrow> 'w CronService \<Rightarrow> nat" where
  "fired p c = length (filter (\<lambda>e. fst e = p) (launchedJobs c))"

definition clock_after :: "('w, 's) cron_env \<Rightarrow> nat \<Rightarrow> 'w \<Rightarrow> 'w" where
  "clock_after env n w = ((\<lambda>v. snd (cClock env v)) ^^ n) w"

text \<open>The service after \<open>k\<close> rounds of the loop of \<open>checkAndRun\<close>.\<close>

definition after_rounds :: "('w, 's) cron_env \<Rightarrow> nat \<Rightarrow> 'w CronService \<Rightarrow> 'w CronService" where
  "after_rounds env k c = (run_due env ^^ k) c"

text \<open>How many jobs of the heap are due: what bounds the rounds of the loop.\<close>

definition due_count :: "Time \<Rightarrow> 'w CronService \<Rightarrow> nat" where
  "due_count now c = size (filter_mset (\<lambda>p. due now (jobStore c p)) (mset (heap c)))"

section \<open>Worked examples: a scripted world\<close>

text \<open>
  For evaluating the definitions on concrete inputs: the world is a counter, the clock
  reads it and advances it, a message is encoded with its role and content and decoded
  from them, and times are not parsed.
\<close>

definition example_senv :: "nat session_env" where
  "example_senv =
     \<lparr>time_Now = (\<lambda>w. (\<lparr>nanos = int w, loc = Local\<rparr>, Suc w)),
      unmarshal_message = (\<lambda>data.
         \<lparr>smRole = (case jindex data ''role'' of Some (JStr r) \<Rightarrow> r | _ \<Rightarrow> []),
          smContent = (case jindex data ''content'' of Some (JStr c) \<Rightarrow> c | _ \<Rightarrow> []),
          smTimestamp = [], smToolCalls = [], smToolCallID = [], smName = []\<rparr>),
      marshal_message = (\<lambda>m. JObj [(''role'', JStr (smRole m)), (''content'', JStr (smContent m))]),
      format_rfc3339 = (\<lambda>t. ''2024-01-01T10:00:00Z''),
      parse_rfc3339 = (\<lambda>s. None)\<rparr>"

text \<open>An agent whose LLM answers every request with the given response.\<close>

definition example_env :: "(string + LLMResponse) \<Rightarrow> nat agent_env" where
  "example_env answer =
     \<lparr>senv = example_senv,
      chat = (\<lambda>msgs w. (answer, w)),
      registry = NewToolRegistry,
      maxIterations = 20,
      memoryWindow = 50,
      buildSystemPrompt = (\<lambda>w. ''You are nanogrip.''),
      ReadLongTerm = (\<lambda>w. []),
      SetToolContext = (\<lambda>channel chatID w. w),
      SetToolContextSystem = (\<lambda>channel chatID w. w),
      io_ok = (\<lambda>w. True)\<rparr>"

text \<open>A subagent manager whose LLM answers every request with the given response.\<close>

definition example_subagent_env :: "(string + LLMResponse) \<Rightarrow> nat subagent_env" where
  "example_subagent_env answer =
     \<lparr>sa_chat = (\<lambda>done msgs w. (answer, w)),
      sa_registry = NewToolRegistry,
      sa_maxIterations = 20,
      sa_buildSubagentPrompt = (\<lambda>task w. ''# Subagent''),
      sa_Now = time_Now example_senv\<rparr>"

definition example_message :: "string \<Rightarrow> string \<Rightarrow> SMessage" where
  "example_message role content =
     \<lparr>smRole = role, smContent = content, smTimestamp = ''2024-01-01T10:00:00Z'',
      smToolCalls = [], smToolCallID = [], smName = []\<rparr>"

definition example_session :: Session where
  "example_session =
     \<lparr>sKey = ''cli:direct'',
      sMessages = [example_message ''user'' ''hello'', example_message ''assistant'' ''hi'',
                   example_message ''user'' ''bye''],
      sCreatedAt = zero_Time, sUpdatedAt = zero_Time, sMetadata = [], sLastConsolidated = 0\<rparr>"

text \<open>
  A cron service on the counter world: the clock reads the counter as nanoseconds, the
  parser accepts one expression, whose schedule is a period in seconds, and the zone
  database knows \<open>UTC\<close>.
\<close>

definition example_cron_env :: "(nat, nat) cron_env" where
  "example_cron_env =
     \<lparr>cClock = (\<lambda>w. (int w, Suc w)),
      cronParse = (\<lambda>e. if e = ''* * * * *'' then Some 60 else None),
      cronNext = (\<lambda>s t. Add t (int s * 1000000000)),
      LoadLocation = (\<lambda>z. if z = ''UTC'' then Some UTC else None)\<rparr>"

definition example_schedule :: "string \<Rightarrow> string \<Rightarrow> string \<Rightarrow> Schedule" where
  "example_schedule kind expr tz =
     \<lparr>Kind = kind, EveryMs = 1000, CronExpr = expr, TZ = tz, AtMs = 0\<rparr>"

definition example_job :: "string \<Rightarrow> Schedule \<Rightarrow> Job" where
  "example_job name schedule =
     \<lparr>jID = name, jName = name, jMessage = ''ping'', jSchedule = schedule, jChannel = ''cli'',
      jTo = ''direct'', jDeliver = True, jDeleteAfterRun = False, jCreatedAt = zero_Time,
      jNextRun = \<lparr>nanos = 0, loc = Local\<rparr>, jTriggerAgent = False, jAgentCommand = []\<rparr>"

text \<open>Two jobs, both due at the reading 5: an \<open>at\<close> job at pointer 0, an \<open>every\<close> job at 1.\<close>

definition example_cron :: "nat CronService" where
  "example_cron =
     \<lparr>jobStore = (\<lambda>p. if p = 0 then example_job ''a'' (example_schedule ''at'' [] [])
                      else example_job ''b'' (example_schedule ''every'' [] [])),
      jobs = [''a'' \<mapsto> 0, ''b'' \<mapsto> 1],
      heap = [0, 1],
      launchedJobs = [],
      cworld = 5\<rparr>"

text \<open>
  An \<open>at\<close> job at pointer 0, due at the reading 5, beside an \<open>every\<close> job at pointer 1 with
  the interval the cron tool builds from \<open>every_seconds = 1e10\<close>, \<open>EveryMs = 10^13\<close>. The
  \<open>int64\<close> product with \<open>time.Millisecond\<close> wraps to \<open>-8446744073709551616\<close> nanoseconds,
  and the next run of the job is the one \<open>AddJob\<close> computes at the reading 0.
\<close>

definition example_starved :: "nat CronService" where
  "example_starved =
     \<lparr>jobStore = (\<lambda>p. if p = 0 then example_job ''a'' (example_schedule ''at'' [] [])
                      else (example_job ''b''
                              ((example_schedule ''every'' [] [])\<lparr>EveryMs := 10000000000000\<rparr>))
                           \<lparr>jNextRun := \<lparr>nanos = - 8446744073709551616, loc = Local\<rparr>\<rparr>),
      jobs = [''a'' \<mapsto> 0, ''b'' \<mapsto> 1],
      heap = [1, 0],
      launchedJobs = [],
      cworld = 5\<rparr>"

text \<open>A fresh service whose caller holds one \<open>cron\<close> job, at pointer 0.\<close>

definition example_cron_new :: "string \<Rightarrow> string \<Rightarrow> nat CronService" where
  "example_cron_new expr tz =
     NewCronService (\<lambda>p. example_job ''c'' (example_schedule ''cron'' expr tz)) 5"

section \<open>Properties of the message bus\<close>

lemma bus_open_New: "bus_open (New n)"
  by (simp add: bus_open_def bus_bounded_def New_def)

lemma bufferSize_New: "bufferSize (New n) = n"
  by (simp add: New_def)

lemma bus_step_bounded: "bus_bounded b \<Longrightarrow> bus_bounded (bus_step x b)"
  by (cases x)
    (auto simp: bus_bounded_def PublishInbound_def PublishOutbound_def ConsumeInbound_def
      ConsumeOutbound_def Close_def Let_def split: list.splits)

lemma bus_step_bufferSize: "bufferSize (bus_step x b) = bufferSize b"
  by (cases x)
    (auto simp: PublishInbound_def PublishOutbound_def ConsumeInbound_def
      ConsumeOutbound_def Close_def Let_def split: list.splits)

lemma bus_step_open: "bus_open b \<Longrightarrow> x \<noteq> BusClose \<Longrightarrow> bus_open (bus_step x b)"
  by (cases x)
    (auto simp: bus_open_def bus_bounded_def PublishInbound_def PublishOutbound_def
      ConsumeInbound_def ConsumeOutbound_def Let_def split: list.splits)

lemma bus_run_bounded: "bus_bounded b \<Longrightarrow> bus_bounded (bus_run xs b)"
  by (induction xs arbitrary: b) (simp_all add: bus_step_bounded)

lemma bus_run_bufferSize: "bufferSize (bus_run xs b) = bufferSize b"
  by (induction xs arbitrary: b) (simp_all add: bus_step_bufferSize)

lemma bus_run_open: "bus_open b \<Longrightarrow> BusClose \<notin> set xs \<Longrightarrow> bus_open (bus_run xs b)"
  by (induction xs arbitrary: b) (auto simp: bus_step_open)

text \<open>
  The queues never hold more than the capacity, whatever the calls, \<open>Close\<close> among them.
\<close>

lemma queue_lengths_bounded:
  "InboundSize (bus_run ops (New N)) \<le> N \<and> OutboundSize (bus_run ops (New N)) \<le> N"
proof -
  have "bus_bounded (bus_run ops (New N))"
    by (rule bus_run_bounded) (simp add: bus_bounded_def New_def)
  then show ?thesis
    by (simp add: bus_bounded_def InboundSize_def OutboundSize_def bus_run_bufferSize
        bufferSize_New)
qed

text \<open>
  On a bus that has not been closed a publish appends the message and returns nil, or
  returns \<open>ErrBusFull\<close> and leaves the queue.
\<close>

lemma PublishInbound_open:
  "bus_open b \<Longrightarrow>
   publish_outcome (inbound b) msg (fst (PublishInbound p msg b)) (inbound (snd (PublishInbound p msg b)))
   \<and> fst (PublishInbound p msg b) \<noteq> Inr (Some ContextCanceled)"
  by (auto simp: bus_open_def PublishInbound_def publish_outcome_def Let_def)

lemma PublishOutbound_open:
  "bus_open b \<Longrightarrow>
   publish_outcome (outbound b) msg (fst (PublishOutbound p msg b)) (outbound (snd (PublishOutbound p msg b)))
   \<and> fst (PublishOutbound p msg b) \<noteq> Inr (Some ContextCanceled)"
  by (auto simp: bus_open_def PublishOutbound_def publish_outcome_def Let_def)

lemma publish_before_Close:
  assumes "BusClose \<notin> set ops"
  shows "publish_outcome (inbound (bus_run ops (New N))) mi
      (fst (PublishInbound p mi (bus_run ops (New N))))
      (inbound (snd (PublishInbound p mi (bus_run ops (New N)))))"
    and "publish_outcome (outbound (bus_run ops (New N))) mo
      (fst (PublishOutbound p mo (bus_run ops (New N))))
      (outbound (snd (PublishOutbound p mo (bus_run ops (New N)))))"
proof -
  have op: "bus_open (bus_run ops (New N))"
    using bus_open_New assms by (rule bus_run_open)
  show "publish_outcome (inbound (bus_run ops (New N))) mi
      (fst (PublishInbound p mi (bus_run ops (New N))))
      (inbound (snd (PublishInbound p mi (bus_run ops (New N)))))"
    using PublishInbound_open [OF op] by simp
  show "publish_outcome (outbound (bus_run ops (New N))) mo
      (fst (PublishOutbound p mo (bus_run ops (New N))))
      (outbound (snd (PublishOutbound p mo (bus_run ops (New N)))))"
    using PublishOutbound_open [OF op] by simp
qed

text \<open>
  Claim C1. A publish on a closed bus does not always have one of the three outcomes. On
  the bus \<open>New N\<close> after one \<open>Close\<close>, context cancelled and both channels closed, the send
  case and the \<open>ctx.Done()\<close> case of the \<open>select\<close> are both ready. When the runtime runs
  the send case, \<open>PublishInbound\<close> panics (send on closed channel), and so does
  \<open>PublishOutbound\<close>: none of the three outcomes. When it runs the other case the call
  returns the context's error and leaves the queue.
\<close>

theorem publish_after_Close_panics:
  "fst (PublishInbound PickSend mi (bus_run [BusClose] (New N))) = Inl SendOnClosedChannel
   \<and> fst (PublishOutbound PickSend mo (bus_run [BusClose] (New N))) = Inl SendOnClosedChannel
   \<and> \<not> publish_outcome (inbound (bus_run [BusClose] (New N))) mi
         (fst (PublishInbound PickSend mi (bus_run [BusClose] (New N))))
         (inbound (snd (PublishInbound PickSend mi (bus_run [BusClose] (New N)))))
   \<and> \<not> publish_outcome (outbound (bus_run [BusClose] (New N))) mo
         (fst (PublishOutbound PickSend mo (bus_run [BusClose] (New N))))
         (outbound (snd (PublishOutbound PickSend mo (bus_run [BusClose] (New N)))))
   \<and> PublishInbound PickDone mi (bus_run [BusClose] (New N))
     = (Inr (Some ContextCanceled), bus_run [BusClose] (New N))"
  by (simp add: PublishInbound_def PublishOutbound_def publish_outcome_def Close_def New_def
      Let_def)

theorem publish_after_Close_panics_witness:
  "fst (PublishInbound PickSend zero_Message (snd (Close (New 1)))) = Inl SendOnClosedChannel
   \<and> fst (PublishOutbound PickSend zero_OutboundMessage (snd (Close (New 1))))
     = Inl SendOnClosedChannel
   \<and> fst (PublishInbound PickDone zero_Message (snd (Close (New 1))))
     = Inr (Some ContextCanceled)"
  using publish_after_Close_panics [where N = 1 and mi = zero_Message
      and mo = zero_OutboundMessage]
  by simp

text \<open>
  Claim C2. \<open>Close\<close> is not idempotent in the code: on a bus that a first \<open>Close\<close> has
  closed, the second call cancels the (already cancelled) context and then panics in
  \<open>close(b.inbound)\<close>, for every buffer size.
\<close>

theorem Close_twice_panics:
  "fst (Close (New N)) = None
   \<and> fst (Close (snd (Close (New N)))) = Some CloseOfClosedChannel"
  by (simp add: Close_def New_def Let_def)

section \<open>Properties of the tool registry\<close>






section \<open>Properties of the session loader\<close>

text \<open>
  Once the decoder holds its sticky error while \<open>More\<close> is true, the loop cannot return:
  \<open>Decode\<close> gives the error back without moving, and the loop body is \<open>continue\<close>.
\<close>

lemma load_loop_returns_not_stuck:
  assumes "load_loop env d vars = Some y"
  shows "\<not> (More d \<and> err d)"
proof (rule load_loop.raw_induct [where P = "\<lambda>env d vars y. \<not> (More d \<and> err d)", OF _ assms])
  fix f :: "'a session_env \<Rightarrow> Decoder \<Rightarrow> load_vars \<Rightarrow> (panic + load_vars) option"
  fix env d vars y
  assume IH: "\<And>env d vars y. f env d vars = Some y \<Longrightarrow> \<not> (More d \<and> err d)"
  assume body: "(if \<not> More d then Some (Inr vars)
      else case Decode d of
           (Decoded data, d') \<Rightarrow>
             (case load_line env data vars of Inl p \<Rightarrow> Some (Inl p)
             | Inr vars' \<Rightarrow> f env d' vars')
           | (DecodeError, d') \<Rightarrow> f env d' vars) = Some y"
  show "\<not> (More d \<and> err d)"
  proof
    assume h: "More d \<and> err d"
    then have dec: "Decode d = (DecodeError, d)"
      by (simp add: Decode_def)
    from body h dec have "f env d vars = Some y"
      by simp
    from IH [OF this] h show False by simp
  qed
qed

lemma load_loop_stuck: "More d \<Longrightarrow> err d \<Longrightarrow> load_loop env d vars = None"
  using load_loop_returns_not_stuck [of env d vars] by (cases "load_loop env d vars") auto

lemma load_loop_garbage:
  assumes "c \<noteq> CHR '']''" "c \<noteq> CHR ''}''"
  shows "load_loop env (NewDecoder (Garbage c # rest)) vars = None"
proof -
  let ?d = "NewDecoder (Garbage c # rest)"
  have m: "More ?d"
    using assms by (simp add: More_def NewDecoder_def)
  have dec: "Decode ?d = (DecodeError, ?d\<lparr>err := True\<rparr>)"
    by (simp add: Decode_def NewDecoder_def)
  have "More (?d\<lparr>err := True\<rparr>)"
    using assms by (simp add: More_def NewDecoder_def)
  then have "load_loop env (?d\<lparr>err := True\<rparr>) vars = None"
    by (rule load_loop_stuck) simp
  then show ?thesis
    using m dec by (subst load_loop.simps) simp
qed

text \<open>
  A line that is a JSON value but no object (a number, a string, a boolean, an array) is
  skipped: the loop goes on with the rest of the file and the same variables.
\<close>

lemma load_loop_skips_non_object:
  assumes "v \<noteq> JNull" "\<And>kvs. v \<noteq> JObj kvs"
  shows "load_loop env \<lparr>buf = Value v # rest, err = False\<rparr> vars
       = load_loop env \<lparr>buf = rest, err = False\<rparr> vars"
proof -
  have "Decode \<lparr>buf = Value v # rest, err = False\<rparr> = (DecodeError, \<lparr>buf = rest, err = False\<rparr>)"
    using assms by (cases v) (auto simp: Decode_def)
  then show ?thesis
    by (subst load_loop.simps) (simp add: More_def)
qed

text \<open>
  Claim C4. The loader does not skip a line that is no JSON: with a session file whose
  first line is the text \<open>not json\<close> (first byte \<open>n\<close>), whatever follows it, the read loop
  never ends, so \<open>load\<close> and \<open>GetOrCreate\<close> do not return.
\<close>

theorem GetOrCreate_malformed_line_never_returns:
  "load_loop env (NewDecoder (Garbage (CHR ''n'') # rest)) load_vars_init = None
   \<and> GetOrCreate env ''cli:direct''
        (NewSessionManager\<lparr>files := [session_path ''cli:direct'' \<mapsto> Garbage (CHR ''n'') # rest]\<rparr>) w
      = None"
proof -
  have "load_loop env (NewDecoder (Garbage (CHR ''n'') # rest)) load_vars_init = None"
    by (rule load_loop_garbage) simp_all
  then show ?thesis
    by (simp add: GetOrCreate_def load_def NewSessionManager_def)
qed

text \<open>
  Claim C10. The loader is not panic-free: with a session file whose first line is the
  object \<open>{"_type":"metadata"}\<close>, which has no \<open>metadata\<close> field, the type assertion on that
  field panics, and so does \<open>GetOrCreate\<close>.
\<close>

theorem GetOrCreate_metadata_assertion_panics:
  "GetOrCreate env ''cli:direct''
      (NewSessionManager\<lparr>files :=
         [session_path ''cli:direct'' \<mapsto> [Value (JObj [(''_type'', JStr ''metadata'')])]]\<rparr>) w
    = Some (Inl InterfaceConversion,
        NewSessionManager\<lparr>files :=
         [session_path ''cli:direct'' \<mapsto> [Value (JObj [(''_type'', JStr ''metadata'')])]]\<rparr>, w)"
proof -
  have "load_loop env (NewDecoder [Value (JObj [(''_type'', JStr ''metadata'')])]) load_vars_init
      = Some (Inl InterfaceConversion)"
    by (subst load_loop.simps)
      (simp add: More_def Decode_def NewDecoder_def load_line_def jindex_def)
  then show ?thesis
    by (simp add: GetOrCreate_def load_def NewSessionManager_def)
qed

section \<open>Properties of memory consolidation\<close>

lemma consolidateMemory_chat_error:
  assumes "chat env (consolidation_request env
             (consolidation_slice sess (sLastConsolidated sess) (consolidation_end sess keepCount)) w) w
           = (Inl e, w1)"
  shows "\<exists>w'. consolidateMemory env key sess keepCount sm w = (Inr sess, sm, w')
           \<or> consolidateMemory env key sess keepCount sm w = (Inl SliceBoundsOutOfRange, sm, w')"
  using assms by (simp add: consolidateMemory_def Let_def)

text \<open>
  Claim C3. What the code does when the LLM answers without any tool call: for a session
  with messages beyond a non-negative cursor and a positive \<open>keepCount\<close>,
  \<open>consolidateMemory\<close> still moves \<open>LastConsolidated\<close> to the end of the slice, which is
  beyond the old cursor, and saves the session; the world is as the LLM call left it (no
  tool has run).
\<close>

theorem consolidateMemory_advances_without_tool_call:
  assumes "0 \<le> sLastConsolidated sess"
    and "sLastConsolidated sess < int (length (sMessages sess))"
    and "0 < keepCount"
    and "chat env (consolidation_request env
             (consolidation_slice sess (sLastConsolidated sess) (consolidation_end sess keepCount)) w) w
           = (Inr resp, w')"
    and "rToolCalls resp = []"
  shows "consolidateMemory env key sess keepCount sm w
           = (Inr (sess\<lparr>sLastConsolidated := consolidation_end sess keepCount\<rparr>),
              snd (Save (senv env) (io_ok env w')
                     (sess\<lparr>sLastConsolidated := consolidation_end sess keepCount\<rparr>) sm),
              w')
         \<and> sLastConsolidated sess < consolidation_end sess keepCount"
proof -
  have lt: "sLastConsolidated sess < consolidation_end sess keepCount"
    using assms(2,3) by (simp add: consolidation_end_def)
  have "nat (sLastConsolidated sess) < length (sMessages sess)"
    using assms(1,2) by linarith
  then have "length (drop (nat (sLastConsolidated sess)) (sMessages sess)) > 0"
    by simp
  moreover have "nat (consolidation_end sess keepCount - sLastConsolidated sess) > 0"
    using lt by simp
  ultimately have ne: "length (consolidation_slice sess (sLastConsolidated sess)
      (consolidation_end sess keepCount)) \<noteq> 0"
    by (simp add: consolidation_slice_def)
  show ?thesis
    using lt ne assms(1,4,5)
    by (simp add: consolidateMemory_def Let_def HasToolCalls_def split: prod.splits)
qed

theorem consolidateMemory_advances_without_tool_call_witness:
  "sLastConsolidated example_session = 0
   \<and> fst (consolidateMemory
        (example_env (Inr \<lparr>rContent = ''Nothing worth saving.'', rToolCalls = []\<rparr>))
        ''cli:direct'' example_session 2 NewSessionManager 0)
      = Inr (example_session\<lparr>sLastConsolidated := 2\<rparr>)"
proof -
  let ?env = "example_env (Inr \<lparr>rContent = ''Nothing worth saving.'', rToolCalls = []\<rparr>)"
  have e: "consolidation_end example_session 2 = 2"
    by (simp add: consolidation_end_def example_session_def)
  have "consolidateMemory ?env ''cli:direct'' example_session 2 NewSessionManager 0
      = (Inr (example_session\<lparr>sLastConsolidated := consolidation_end example_session 2\<rparr>),
         snd (Save (senv ?env) (io_ok ?env 0)
           (example_session\<lparr>sLastConsolidated := consolidation_end example_session 2\<rparr>)
           NewSessionManager), 0)"
    using consolidateMemory_advances_without_tool_call
      [where sess = example_session and keepCount = 2 and env = ?env and w = 0 and w' = 0
        and resp = "\<lparr>rContent = ''Nothing worth saving.'', rToolCalls = []\<rparr>"
        and key = "''cli:direct''" and sm = NewSessionManager]
    by (simp add: example_session_def example_env_def)
  then show ?thesis
    using e by (simp add: example_session_def)
qed

section \<open>Properties of a turn of the agent loop\<close>

lemma AddMessage_nil:
  assumes "AddMessage env role content [] s w = (s', w')"
  shows "\<exists>m. sMessages s' = sMessages s @ [m] \<and> smRole m = role \<and> smContent m = content
           \<and> smToolCalls m = [] \<and> smToolCallID m = [] \<and> smName m = []"
    and "sKey s' = sKey s"
  using assms by (auto simp: AddMessage_def Let_def split: prod.splits)

lemma store_turn_result:
  assumes "store_turn env key u f sess sm w = (sess2, sm2, w2)"
  shows "\<exists>m1 m2. sMessages sess2 = sMessages sess @ [m1, m2]
            \<and> smRole m1 = ''user'' \<and> smContent m1 = u
            \<and> smRole m2 = ''assistant'' \<and> smContent m2 = f"
    and "map_of (cache sm2) key = Some sess2"
    and "io_ok env w2 \<Longrightarrow> files sm2 (session_path (sKey sess)) = Some (session_file (senv env) sess2)"
proof -
  obtain s1 w1 where a1: "AddMessage (senv env) ''user'' u [] sess w = (s1, w1)"
    by (cases "AddMessage (senv env) ''user'' u [] sess w")
  obtain s2 w2' where a2: "AddMessage (senv env) ''assistant'' f [] s1 w1 = (s2, w2')"
    by (cases "AddMessage (senv env) ''assistant'' f [] s1 w1")
  from assms a1 a2 have eq: "sess2 = s2" "w2 = w2'"
    and sm2: "sm2 = snd (Save (senv env) (io_ok env w2') s2 (sm\<lparr>cache := AList.update key s2 (cache sm)\<rparr>))"
    by (auto simp: store_turn_def Let_def split: prod.splits)
  from AddMessage_nil(1) [OF a1] AddMessage_nil(1) [OF a2] eq
  show "\<exists>m1 m2. sMessages sess2 = sMessages sess @ [m1, m2]
            \<and> smRole m1 = ''user'' \<and> smContent m1 = u
            \<and> smRole m2 = ''assistant'' \<and> smContent m2 = f"
    by auto
  show "map_of (cache sm2) key = Some sess2"
    using sm2 eq by (simp add: Save_def update_conv')
  have k: "sKey s2 = sKey sess"
    using AddMessage_nil(2) [OF a1] AddMessage_nil(2) [OF a2] by simp
  show "io_ok env w2 \<Longrightarrow> files sm2 (session_path (sKey sess)) = Some (session_file (senv env) sess2)"
    using sm2 eq k by (simp add: Save_def)
qed

lemma sessions_ConsolidateIfNeeded:
  "sessions (ConsolidateIfNeeded env key s a) = sessions a"
  by (simp add: ConsolidateIfNeeded_def Let_def)

text \<open>
  Claim C6. Take a message that is not from the \<open>system\<close> channel and whose content is
  neither \<open>/new\<close> nor \<open>/help\<close>, let \<open>sess\<close> be the session \<open>GetOrCreate\<close> gives for
  its key, and suppose \<open>processMessage\<close> returns a reply (the turn was not cut short by an
  LLM error, a panic or a load that does not return). Then the session under that key
  afterwards is \<open>sess\<close> with exactly two entries appended: the user's content with role
  \<open>user\<close>, then the reply's content with role \<open>assistant\<close>; nothing else, so no tool
  message. The reply's content is not empty: it is what the iteration returned, or the
  fixed sentence when that was empty. When the file system accepts the write, the session
  file holds this same session.
\<close>

theorem processMessage_turn:
  assumes "Channel msg \<noteq> ''system''" and "Content msg \<noteq> ''/new''" and "Content msg \<noteq> ''/help''"
    and "GetOrCreate (senv env) (session_key msg) (sessions a) (world a) = Some (Inr sess, sm1, w1)"
    and "processMessage env msg a = Some (Inr (TurnReply out), a')"
  shows "\<exists>s' u r history final0 w3.
           map_of (cache (sessions a')) (session_key msg) = Some s'
           \<and> sMessages s' = sMessages sess @ [u, r]
           \<and> smRole u = ''user'' \<and> smContent u = Content msg
           \<and> smRole r = ''assistant'' \<and> smContent r = oContent out
           \<and> oContent out \<noteq> []
           \<and> GetHistory sess (memoryWindow env) = Inr history
           \<and> runAgentLoop env (turn_messages env history (Content msg) (Channel msg) (ChatID msg)
                 (Media msg) (SetToolContext env (Channel msg) (ChatID msg) w1))
               (SetToolContext env (Channel msg) (ChatID msg) w1) = (Inr final0, w3)
           \<and> oContent out = (if final0 = [] then no_response_text else final0)
           \<and> (io_ok env (world a') \<longrightarrow>
                files (sessions a') (session_path (sKey sess)) = Some (session_file (senv env) s'))"
proof -
  let ?w2 = "SetToolContext env (Channel msg) (ChatID msg) w1"
  from assms obtain history where h: "GetHistory sess (memoryWindow env) = Inr history"
    by (cases "GetHistory sess (memoryWindow env)") (auto simp: processMessage_def Let_def)
  let ?msgs = "turn_messages env history (Content msg) (Channel msg) (ChatID msg) (Media msg) ?w2"
  from assms h obtain final0 w3 where r: "runAgentLoop env ?msgs ?w2 = (Inr final0, w3)"
    by (cases "runAgentLoop env ?msgs ?w2"; cases "fst (runAgentLoop env ?msgs ?w2)")
      (auto simp: processMessage_def Let_def)
  let ?final = "if final0 = [] then no_response_text else final0"
  obtain s2 sm2 w4 where st: "store_turn env (session_key msg) (Content msg) ?final sess sm1 w3 = (s2, sm2, w4)"
    by (cases "store_turn env (session_key msg) (Content msg) ?final sess sm1 w3") auto
  from assms h r st have out: "oContent out = ?final"
    and a': "a' = ConsolidateIfNeeded env (session_key msg) s2 (a\<lparr>sessions := sm2, world := w4\<rparr>)"
    by (auto simp: processMessage_def Let_def)
  have ne: "oContent out \<noteq> []"
    using out by (simp add: no_response_text_def)
  have sess': "sessions a' = sm2"
    using a' by (simp add: sessions_ConsolidateIfNeeded)
  have w': "world a' = w4"
    using a' by (simp add: ConsolidateIfNeeded_def Let_def)
  from store_turn_result [OF st] sess' w' out ne h r show ?thesis
    by auto
qed


lemma agent_iterate_final:
  assumes "0 < n" and "chat env (map to_provider messages) w = (Inr resp, w')"
    and "rToolCalls resp = []"
  shows "agent_iterate env n messages w = (Inr (rContent resp), w')"
  using assms by (cases n) (simp_all add: HasToolCalls_def)

lemma example_env_fields:
  "senv (example_env x) = example_senv"
  "chat (example_env x) = (\<lambda>msgs w. (x, w))"
  "registry (example_env x) = NewToolRegistry"
  "maxIterations (example_env x) = 20"
  "memoryWindow (example_env x) = 50"
  "ReadLongTerm (example_env x) = (\<lambda>w. [])"
  "SetToolContext (example_env x) = (\<lambda>channel chatID w. w)"
  "io_ok (example_env x) = (\<lambda>w. True)"
  by (simp_all add: example_env_def)

theorem processMessage_turn_witness:
  "\<exists>out a'. processMessage (example_env (Inr \<lparr>rContent = ''4'', rToolCalls = []\<rparr>))
                (direct_message ''2+2?'') (NewAgentLoop 0) = Some (Inr (TurnReply out), a')
      \<and> oContent out = ''4''
      \<and> map (\<lambda>m. (smRole m, smContent m))
           (sMessages (the (map_of (cache (sessions a')) ''cli:direct'')))
         = [(''user'', ''2+2?''), (''assistant'', ''4'')]"
proof -
  let ?env = "example_env (Inr \<lparr>rContent = ''4'', rToolCalls = []\<rparr>)"
  let ?msg = "direct_message ''2+2?''"
  let ?a = "NewAgentLoop (0::nat)"
  let ?s0 = "\<lparr>sKey = ''cli:direct'', sMessages = [], sCreatedAt = \<lparr>nanos = 0, loc = Local\<rparr>,
              sUpdatedAt = \<lparr>nanos = 1, loc = Local\<rparr>, sMetadata = [], sLastConsolidated = 0\<rparr>"
  have key: "session_key ?msg = ''cli:direct''"
    by (simp add: session_key_def direct_message_def)
  have "map_option fst (GetOrCreate (senv ?env) ''cli:direct'' (sessions ?a) (world ?a)) = Some (Inr ?s0)"
    by (simp add: GetOrCreate_def load_def NewAgentLoop_def NewSessionManager_def example_env_def
        example_senv_def NewSession_def Let_def)
  then obtain sm1 w1 where g: "GetOrCreate (senv ?env) (session_key ?msg) (sessions ?a) (world ?a)
      = Some (Inr ?s0, sm1, w1)"
    using key by (cases "GetOrCreate (senv ?env) ''cli:direct'' (sessions ?a) (world ?a)") auto
  have it: "\<And>msgs w. runAgentLoop ?env msgs w = (Inr ''4'', w)"
    by (simp add: runAgentLoop_def example_env_def agent_iterate_final [where resp = "\<lparr>rContent = ''4'', rToolCalls = []\<rparr>"])
  have "map_option fst (processMessage ?env ?msg ?a)
      = Some (Inr (TurnReply \<lparr>oChannel = ''cli'', oChatID = ''direct'', oContent = ''4'',
                 oMedia = [], oMetadata = []\<rparr>))"
    using g key
    by (simp add: processMessage_def it GetHistory_def Let_def direct_message_def
        example_env_fields split: prod.splits)
  then obtain a' where p: "processMessage ?env ?msg ?a
      = Some (Inr (TurnReply \<lparr>oChannel = ''cli'', oChatID = ''direct'', oContent = ''4'',
                 oMedia = [], oMetadata = []\<rparr>), a')"
    by (cases "processMessage ?env ?msg ?a") auto
  have "Channel ?msg \<noteq> ''system''" "Content ?msg \<noteq> ''/new''" "Content ?msg \<noteq> ''/help''"
    by (simp_all add: direct_message_def)
  from processMessage_turn [OF this g p] key
  obtain s' u r where "map_of (cache (sessions a')) ''cli:direct'' = Some s'"
    "sMessages s' = [u, r]" "smRole u = ''user''" "smContent u = ''2+2?''"
    "smRole r = ''assistant''" "smContent r = ''4''"
    by (auto simp: direct_message_def)
  with p show ?thesis
    by auto
qed

section \<open>Properties of the subagent manager\<close>

lemma runningTasks_announceResult:
  "runningTasks (snd (announceResult env pick g result status m)) = runningTasks m"
  by (simp add: announceResult_def Let_def split: prod.splits sum.splits)

lemma announceResult_open_bus:
  assumes "\<not> inbound_closed (mbus m)"
  shows "fst (announceResult env pick g result status m) = None"
  using assms
  by (simp add: announceResult_def PublishInbound_def Let_def split: prod.splits sum.splits)

text \<open>
  Claim C9. The task is not removed in all four cases. When the loop ends because a
  \<open>Chat\<close> call returned an error, \<open>runSubagent\<close> announces the failure and returns: the
  by-id map is exactly as before, so a task that was in it is still in it. (It is removed
  when the loop ends with a result or at the iteration cap, lemma
  \<open>runSubagent_done_removes_task\<close>, and by \<open>CancelTask\<close>, lemma
  \<open>CancelTask_removes_task\<close>.)
\<close>

theorem runSubagent_error_keeps_task:
  assumes "subagent_iterate env (gCtx g \<in> cancelled m) (nat (sa_maxIterations env))
             [agent_msg ''system'' (sa_buildSubagentPrompt env (gTask g) (mworld m)),
              agent_msg ''user'' (gTask g)] (mworld m) = (Inl e, w')"
  shows "runningTasks (snd (runSubagent env pick g m)) = runningTasks m"
  using assms by (simp add: runSubagent_def Let_def runningTasks_announceResult)

lemma runSubagent_done_removes_task:
  assumes it: "subagent_iterate env (gCtx g \<in> cancelled m) (nat (sa_maxIterations env))
             [agent_msg ''system'' (sa_buildSubagentPrompt env (gTask g) (mworld m)),
              agent_msg ''user'' (gTask g)] (mworld m) = (Inr r, w')"
    and ok: "fst (runSubagent env pick g m) = None"
  shows "runningTasks (snd (runSubagent env pick g m)) = (runningTasks m)(gTaskID g := None)"
proof -
  let ?final = "if r = [] then no_final_text else r"
  let ?ar = "announceResult env pick g ?final ''ok'' (m\<lparr>mworld := w'\<rparr>)"
  obtain p m1 where ar: "?ar = (p, m1)"
    by (cases ?ar)
  have run: "runSubagent env pick g m =
      (case p of Some q \<Rightarrow> (Some q, m1)
       | None \<Rightarrow> (None, m1\<lparr>runningTasks := (runningTasks m1)(gTaskID g := None)\<rparr>))"
    using it ar by (simp add: runSubagent_def Let_def)
  with ok have p: "p = None"
    by (cases p) simp_all
  have "runningTasks (snd ?ar) = runningTasks (m\<lparr>mworld := w'\<rparr>)"
    by (rule runningTasks_announceResult)
  with ar have "runningTasks m1 = runningTasks m"
    by simp
  with run p show ?thesis
    by simp
qed

lemma CancelTask_removes_task:
  "runningTasks (snd (CancelTask taskID m)) taskID = None"
  by (simp add: CancelTask_def split: option.splits)

lemma subagent_iterate_error:
  assumes "0 < n" and "sa_chat env done (map sub_to_provider messages) w = (Inl e, w')"
  shows "subagent_iterate env done n messages w = (Inl e, w')"
  using assms by (cases n) simp_all

lemma hex_example: "fmt_x 1700000000000000000 = ''17979cfe362a0000''"
  by (simp add: fmt_x_def hex_nat_def hex_digit_def upt_conv_Cons)

theorem runSubagent_error_keeps_task_witness:
  "\<exists>ack g m1. Spawn (example_subagent_env (Inl ''connection refused'')) ''compute X'' ''calc''
        ''cli'' ''direct'' (NewSubagentManager (New 100) 1700000000000000000) = (Inr (ack, g), m1)
      \<and> gTaskID g = ''17979cfe''
      \<and> fst (runSubagent (example_subagent_env (Inl ''connection refused'')) PickSend g m1) = None
      \<and> runningTasks (snd (runSubagent (example_subagent_env (Inl ''connection refused''))
           PickSend g m1)) ''17979cfe'' \<noteq> None"
proof -
  let ?env = "example_subagent_env (Inl ''connection refused'')"
  let ?m0 = "NewSubagentManager (New 100) (1700000000000000000::nat)"
  let ?g = "\<lparr>gCtx = 0, gTaskID = ''17979cfe'', gLabel = ''calc'', gTask = ''compute X'',
             gOriginChannel = ''cli'', gOriginChatID = ''direct''\<rparr>"
  have id: "generateTaskID ?env 1700000000000000000 = (Inr ''17979cfe'', 1700000000000000001)"
    using hex_example
    by (simp add: generateTaskID_def example_subagent_env_def example_senv_def)
  have "map_prod (map_sum id snd) runningTasks (Spawn ?env ''compute X'' ''calc'' ''cli'' ''direct'' ?m0)
      = (Inr ?g, [''17979cfe'' \<mapsto> \<lparr>stID = ''17979cfe'', stLabel = ''calc'', stTask = ''compute X'',
                          stOriginChannel = ''cli'', stOriginChatID = ''direct'', stContext = 0\<rparr>])"
    using id by (simp add: Spawn_def NewSubagentManager_def Let_def)
  then obtain ack m1 where sp: "Spawn ?env ''compute X'' ''calc'' ''cli'' ''direct'' ?m0 = (Inr (ack, ?g), m1)"
    and rt: "runningTasks m1 ''17979cfe'' \<noteq> None"
    and b: "mbus m1 = New 100"
    by (cases "Spawn ?env ''compute X'' ''calc'' ''cli'' ''direct'' ?m0") (auto simp: Spawn_def NewSubagentManager_def Let_def id split: sum.splits)
  have it: "subagent_iterate ?env (gCtx ?g \<in> cancelled m1) (nat (sa_maxIterations ?env))
             [agent_msg ''system'' (sa_buildSubagentPrompt ?env (gTask ?g) (mworld m1)),
              agent_msg ''user'' (gTask ?g)] (mworld m1) = (Inl ''connection refused'', mworld m1)"
    by (rule subagent_iterate_error) (simp_all add: example_subagent_env_def)
  from runSubagent_error_keeps_task [OF it, of PickSend] rt
  have keep: "runningTasks (snd (runSubagent ?env PickSend ?g m1)) ''17979cfe'' \<noteq> None"
    by simp
  have "fst (runSubagent ?env PickSend ?g m1) = None"
    using it b by (simp add: runSubagent_def Let_def announceResult_open_bus New_def)
  with sp keep show ?thesis
    by auto
qed

section \<open>Properties of the job heap\<close>

lemma length_hSwap [simp]: "length (hSwap h i j) = length h"
  by (simp add: hSwap_def)

lemma mset_hSwap: "i < length h \<Longrightarrow> j < length h \<Longrightarrow> mset (hSwap h i j) = mset h"
  by (simp add: hSwap_def mset_swap)

lemma nth_hSwap:
  "i < length h \<Longrightarrow> j < length h \<Longrightarrow> k < length h \<Longrightarrow>
   hSwap h i j ! k = (if k = j then h ! i else if k = i then h ! j else h ! k)"
  by (auto simp: hSwap_def nth_list_update)

declare up.simps [simp del] down.simps [simp del]

lemma up_props: "j < length h \<Longrightarrow> length (up key h j) = length h \<and> mset (up key h j) = mset h"
proof (induction key h j rule: up.induct)
  case (1 key h j)
  show ?case
  proof (cases "(j - 1) div 2 = j \<or> \<not> hLess key h j ((j - 1) div 2)")
    case True
    then show ?thesis by (subst up.simps, subst (2) up.simps) (simp add: Let_def)
  next
    case False
    have lt: "(j - 1) div 2 < length h" using 1(2) by simp
    from 1(1) [OF refl False] lt
    have "length (up key (hSwap h ((j - 1) div 2) j) ((j - 1) div 2)) = length h
        \<and> mset (up key (hSwap h ((j - 1) div 2) j) ((j - 1) div 2)) = mset (hSwap h ((j - 1) div 2) j)"
      by simp
    then show ?thesis
      using False lt 1(2)
      by (subst up.simps, subst (2) up.simps) (simp add: Let_def mset_hSwap)
  qed
qed

lemma smaller_child_cases:
  "smaller_child key h j1 n = j1 \<or> (smaller_child key h j1 n = j1 + 1 \<and> j1 + 1 < n)"
  by (simp add: smaller_child_def)

lemma smaller_child_bounds:
  assumes "j1 < n"
  shows "smaller_child key h j1 n < n" and "j1 \<le> smaller_child key h j1 n"
  using assms by (simp_all add: smaller_child_def)

lemma down_unfold_stop:
  "2 * i + 1 \<ge> n \<or> \<not> hLess key h (smaller_child key h (2 * i + 1) n) i \<Longrightarrow> down key h i n = h"
  by (subst down.simps) (auto simp: Let_def)

lemma down_unfold_step:
  "2 * i + 1 < n \<Longrightarrow> hLess key h (smaller_child key h (2 * i + 1) n) i \<Longrightarrow>
   down key h i n
   = down key (hSwap h i (smaller_child key h (2 * i + 1) n)) (smaller_child key h (2 * i + 1) n) n"
  by (subst down.simps) (simp add: Let_def)

lemma down_props:
  "n \<le> length h \<Longrightarrow>
   length (down key h i n) = length h \<and> mset (down key h i n) = mset h
   \<and> (\<forall>k. n \<le> k \<longrightarrow> down key h i n ! k = h ! k)"
proof (induction key h i n rule: down.induct)
  case (1 key h i n)
  let ?j = "smaller_child key h (2 * i + 1) n"
  show ?case
  proof (cases "2 * i + 1 \<ge> n \<or> \<not> hLess key h ?j i")
    case True
    then have "down key h i n = h"
      by (rule down_unfold_stop)
    then show ?thesis by simp
  next
    case False
    then have j1: "\<not> n \<le> 2 * i + 1" and less: "hLess key h ?j i" by auto
    have jn: "?j < n" using j1 by (intro smaller_child_bounds) simp
    have i_n: "i < n" using j1 by simp
    have eq: "down key h i n = down key (hSwap h i ?j) ?j n"
      using j1 less by (intro down_unfold_step) auto
    have len: "n \<le> length (hSwap h i ?j)" using 1(2) by simp
    have less': "\<not> \<not> hLess key h ?j i" using less by simp
    note IH = 1(1) [OF refl j1 refl less' len]
    have sw: "\<forall>k. n \<le> k \<longrightarrow> hSwap h i ?j ! k = h ! k"
      using jn i_n by (auto simp: hSwap_def)
    have ms: "mset (hSwap h i ?j) = mset h"
      using jn i_n 1(2) by (intro mset_hSwap) auto
    show ?thesis
      unfolding eq using IH sw ms by simp
  qed
qed


lemma up_unfold_stop:
  "(j - 1) div 2 = j \<or> \<not> hLess key h j ((j - 1) div 2) \<Longrightarrow> up key h j = h"
  by (subst up.simps) (auto simp: Let_def)

lemma up_unfold_step:
  "(j - 1) div 2 \<noteq> j \<Longrightarrow> hLess key h j ((j - 1) div 2) \<Longrightarrow>
   up key h j = up key (hSwap h ((j - 1) div 2) j) ((j - 1) div 2)"
  by (subst up.simps) (simp add: Let_def)

lemma parent_less: "0 < (i::nat) \<Longrightarrow> (i - 1) div 2 < i"
  by arith

lemma parent_neq: "0 < (i::nat) \<Longrightarrow> (i - 1) div 2 \<noteq> i"
  by arith

lemma heap_upto_root_min:
  assumes "heap_upto key h n"
  shows "i < n \<Longrightarrow> key (h ! 0) \<le> key (h ! i)"
proof (induction i rule: less_induct)
  case (less i)
  show ?case
  proof (cases "i = 0")
    case True
    then show ?thesis by simp
  next
    case False
    then have p: "(i - 1) div 2 < i" using parent_less [of i] by simp
    with less.prems have "(i - 1) div 2 < n" by simp
    from less.IH [OF p this] have "key (h ! 0) \<le> key (h ! ((i - 1) div 2))" .
    moreover have "key (h ! ((i - 1) div 2)) \<le> key (h ! i)"
      using assms False less.prems by (simp add: heap_upto_def)
    ultimately show ?thesis by simp
  qed
qed

lemma up_heap:
  "heap_except_up key h n j \<Longrightarrow> j < n \<Longrightarrow> n \<le> length h \<Longrightarrow> heap_upto key (up key h j) n"
proof (induction key h j rule: up.induct)
  case (1 key h j)
  let ?i = "(j - 1) div 2"
  show ?case
  proof (cases "?i = j \<or> \<not> hLess key h j ?i")
    case True
    then have eq: "up key h j = h" by (rule up_unfold_stop)
    have "heap_upto key h n"
      unfolding heap_upto_def
    proof (intro allI impI)
      fix k assume k: "0 < k \<and> k < n"
      show "key (h ! ((k - 1) div 2)) \<le> key (h ! k)"
      proof (cases "k = j")
        case False
        with k 1(2) show ?thesis by (simp add: heap_except_up_def)
      next
        case kj: True
        with k have "?i \<noteq> j" using parent_neq [of j] by simp
        with True have "\<not> hLess key h j ?i" by simp
        with kj show ?thesis by (simp add: hLess_def)
      qed
    qed
    with eq show ?thesis by simp
  next
    case False
    then have ij: "?i \<noteq> j" and less: "hLess key h j ?i" by auto
    then have j0: "0 < j" by (cases j) auto
    then have i_lt: "?i < j" by (rule parent_less)
    have lt: "key (h ! j) < key (h ! ?i)" using less by (simp add: hLess_def)
    let ?h = "hSwap h ?i j"
    have eq: "up key h j = up key ?h ?i" using ij less by (rule up_unfold_step)
    have jl: "j < length h" and il: "?i < length h" using 1(3,4) i_lt by auto
    have nth: "\<And>k. k < n \<Longrightarrow> ?h ! k = (if k = j then h ! ?i else if k = ?i then h ! j else h ! k)"
      using jl il 1(4) by (simp add: nth_hSwap)
    have ex: "heap_except_up key ?h n ?i"
      unfolding heap_except_up_def
    proof (intro conjI allI impI)
      fix k assume k: "0 < k \<and> k < n \<and> k \<noteq> ?i"
      then have pk: "(k - 1) div 2 < n" "(k - 1) div 2 < k"
        using parent_less [of k] by auto
      show "key (?h ! ((k - 1) div 2)) \<le> key (?h ! k)"
      proof (cases "k = j")
        case True
        then show ?thesis using nth [of j] nth [of ?i] 1(3) i_lt lt by simp
      next
        case kj: False
        have hk: "?h ! k = h ! k" using nth [of k] k kj by simp
        have ord: "key (h ! ((k - 1) div 2)) \<le> key (h ! k)"
          using 1(2) k kj by (simp add: heap_except_up_def)
        show ?thesis
        proof (cases "(k - 1) div 2 = ?i")
          case True
          then have "?h ! ((k - 1) div 2) = h ! j" using nth [of ?i] pk i_lt by auto
          moreover have "key (h ! ?i) \<le> key (h ! k)" using ord True by simp
          ultimately show ?thesis using hk lt by simp
        next
          case pi: False
          show ?thesis
          proof (cases "(k - 1) div 2 = j")
            case True
            then have "?h ! ((k - 1) div 2) = h ! ?i" using nth [of j] 1(3) by simp
            moreover have "key (h ! ?i) \<le> key (h ! k)"
              using 1(2) k True j0 by (simp add: heap_except_up_def)
            ultimately show ?thesis using hk by simp
          next
            case False
            then have "?h ! ((k - 1) div 2) = h ! ((k - 1) div 2)"
              using nth [of "(k - 1) div 2"] pk pi by simp
            then show ?thesis using hk ord by simp
          qed
        qed
      qed
    next
      fix k assume k: "0 < k \<and> k < n \<and> (k - 1) div 2 = ?i \<and> 0 < ?i"
      then have i0: "0 < ?i" by simp
      then have ppi: "(?i - 1) div 2 < ?i" by (rule parent_less)
      have pin: "(?i - 1) div 2 < n" using ppi i_lt 1(3) by simp
      have hp: "?h ! ((?i - 1) div 2) = h ! ((?i - 1) div 2)"
        using nth [of "(?i - 1) div 2"] pin ppi i_lt by simp
      have pi_ord: "key (h ! ((?i - 1) div 2)) \<le> key (h ! ?i)"
        using 1(2) i0 i_lt 1(3) ij by (simp add: heap_except_up_def)
      have ki: "k \<noteq> ?i" using k by (metis less_irrefl parent_less)
      show "key (?h ! ((?i - 1) div 2)) \<le> key (?h ! k)"
      proof (cases "k = j")
        case True
        then have "?h ! k = h ! ?i" using nth [of j] 1(3) by simp
        then show ?thesis using hp pi_ord by simp
      next
        case False
        then have "?h ! k = h ! k" using nth [of k] k ki by simp
        moreover have "key (h ! ?i) \<le> key (h ! k)"
          using 1(2) k False by (auto simp: heap_except_up_def)
        ultimately show ?thesis using hp pi_ord by simp
      qed
    qed
    have "?i < n" using i_lt 1(3) by simp
    moreover have "n \<le> length ?h" using 1(4) by simp
    ultimately have "heap_upto key (up key ?h ?i) n"
      using 1(1) [OF refl False ex] by simp
    with eq show ?thesis by simp
  qed
qed


lemma parent_child_iff: "0 < (c::nat) \<Longrightarrow> ((c - 1) div 2 = i) = (c = 2 * i + 1 \<or> c = 2 * i + 2)"
  by arith

lemma smaller_child_min:
  assumes "c = j1 \<or> c = j1 + 1" and "c < n"
  shows "key (h ! smaller_child key h j1 n) \<le> key (h ! c)"
  using assms by (auto simp: smaller_child_def hLess_def)

lemma smaller_child_parent:
  "(smaller_child key h (2 * i + 1) n - 1) div 2 = i"
  using smaller_child_cases [of key h "2 * i + 1" n] by auto

lemma down_heap:
  "heap_except_down key h n i \<Longrightarrow> n \<le> length h \<Longrightarrow> heap_upto key (down key h i n) n"
proof (induction key h i n rule: down.induct)
  case (1 key h i n)
  let ?j1 = "2 * i + 1"
  let ?j = "smaller_child key h ?j1 n"
  show ?case
  proof (cases "?j1 \<ge> n \<or> \<not> hLess key h ?j i")
    case True
    then have eq: "down key h i n = h" by (rule down_unfold_stop)
    have "heap_upto key h n"
      unfolding heap_upto_def
    proof (intro allI impI)
      fix c assume c: "0 < c \<and> c < n"
      show "key (h ! ((c - 1) div 2)) \<le> key (h ! c)"
      proof (cases "(c - 1) div 2 = i")
        case False
        with c 1(2) show ?thesis by (simp add: heap_except_down_def)
      next
        case pc: True
        with c have ch: "c = ?j1 \<or> c = ?j1 + 1" using parent_child_iff [of c i] by auto
        with c have "\<not> n \<le> ?j1" by auto
        with True have "\<not> hLess key h ?j i" by simp
        then have "key (h ! i) \<le> key (h ! ?j)" by (simp add: hLess_def)
        moreover have "key (h ! ?j) \<le> key (h ! c)"
          using ch c by (intro smaller_child_min) auto
        ultimately show ?thesis using pc by simp
      qed
    qed
    with eq show ?thesis by simp
  next
    case False
    then have j1: "\<not> n \<le> ?j1" and less: "hLess key h ?j i" by auto
    have jn: "?j < n" using j1 by (intro smaller_child_bounds) simp
    have ij: "i < ?j" using smaller_child_bounds(2) [of ?j1 n key h] j1 by simp
    have pj: "(?j - 1) div 2 = i" by (rule smaller_child_parent)
    have lt: "key (h ! ?j) < key (h ! i)" using less by (simp add: hLess_def)
    let ?h = "hSwap h i ?j"
    have eq: "down key h i n = down key ?h ?j n"
      using j1 less by (intro down_unfold_step) auto
    have nth: "\<And>k. k < n \<Longrightarrow> ?h ! k = (if k = ?j then h ! i else if k = i then h ! ?j else h ! k)"
      using jn ij 1(3) by (simp add: nth_hSwap)
    have ex: "heap_except_down key ?h n ?j"
      unfolding heap_except_down_def
    proof (intro conjI allI impI)
      fix c assume c: "0 < c \<and> c < n \<and> (c - 1) div 2 \<noteq> ?j"
      then have pc: "(c - 1) div 2 < n" "(c - 1) div 2 < c"
        using parent_less [of c] by auto
      show "key (?h ! ((c - 1) div 2)) \<le> key (?h ! c)"
      proof (cases "c = ?j")
        case True
        then show ?thesis using nth [of ?j] nth [of i] jn ij pj lt by simp
      next
        case cj: False
        show ?thesis
        proof (cases "c = i")
          case True
          with c have i0: "0 < i" by simp
          have "(i - 1) div 2 < i" using i0 by (rule parent_less)
          then have "?h ! ((i - 1) div 2) = h ! ((i - 1) div 2)"
            using nth [of "(i - 1) div 2"] ij jn by simp
          moreover have "?h ! i = h ! ?j" using nth [of i] ij jn by simp
          moreover have "key (h ! ((i - 1) div 2)) \<le> key (h ! ?j)"
            using 1(2) jn ij pj i0 by (simp add: heap_except_down_def)
          ultimately show ?thesis using True by simp
        next
          case ci: False
          have hc: "?h ! c = h ! c" using nth [of c] c cj ci by simp
          show ?thesis
          proof (cases "(c - 1) div 2 = i")
            case True
            then have ch: "c = ?j1 \<or> c = ?j1 + 1" using parent_child_iff [of c i] c by auto
            have "?h ! ((c - 1) div 2) = h ! ?j" using True nth [of i] ij jn by simp
            moreover have "key (h ! ?j) \<le> key (h ! c)"
              using ch c by (intro smaller_child_min) auto
            ultimately show ?thesis using hc by simp
          next
            case False
            then have "?h ! ((c - 1) div 2) = h ! ((c - 1) div 2)"
              using nth [of "(c - 1) div 2"] pc c by simp
            moreover have "key (h ! ((c - 1) div 2)) \<le> key (h ! c)"
              using 1(2) c False by (simp add: heap_except_down_def)
            ultimately show ?thesis using hc by simp
          qed
        qed
      qed
    next
      fix c assume c: "0 < c \<and> c < n \<and> (c - 1) div 2 = ?j \<and> 0 < ?j"
      then have "?j < c" using parent_less [of c] by simp
      then have "c \<noteq> ?j" "c \<noteq> i" using ij by auto
      then have hc: "?h ! c = h ! c" using nth [of c] c by simp
      have "?h ! ((?j - 1) div 2) = h ! ?j" using pj nth [of i] ij jn by simp
      moreover have "key (h ! ?j) \<le> key (h ! c)"
        using 1(2) c ij by (auto simp: heap_except_down_def)
      ultimately show "key (?h ! ((?j - 1) div 2)) \<le> key (?h ! c)"
        using hc by simp
    qed
    have less': "\<not> \<not> hLess key h ?j i" using less by simp
    have "n \<le> length ?h" using 1(3) by simp
    with 1(1) [OF refl j1 refl less' ex] have "heap_upto key (down key ?h ?j n) n" .
    with eq show ?thesis by simp
  qed
qed


lemma heap_upto_cong:
  assumes "\<And>p. p \<in> set h \<Longrightarrow> f p = g p" and "n \<le> length h"
  shows "heap_upto f h n = heap_upto g h n"
proof -
  have "\<And>i. i < n \<Longrightarrow> f (h ! i) = g (h ! i)"
    using assms by simp
  moreover have "\<And>i. 0 < i \<Longrightarrow> i < n \<Longrightarrow> (i - 1) div 2 < n"
    using parent_less by (meson less_trans)
  ultimately show ?thesis
    unfolding heap_upto_def by auto
qed

lemma heap_Push_mset: "mset (heap_Push key h x) = add_mset x (mset h)"
  using up_props [of "length h" "h @ [x]" key] by (simp add: heap_Push_def)

lemma heap_Push_is_heap:
  assumes "is_heap key h"
  shows "is_heap key (heap_Push key h x)"
proof -
  let ?n = "Suc (length h)"
  have ex: "heap_except_up key (h @ [x]) ?n (length h)"
    unfolding heap_except_up_def
  proof (intro conjI allI impI)
    fix i assume i: "0 < i \<and> i < ?n \<and> i \<noteq> length h"
    then have il: "i < length h" by simp
    then have "(i - 1) div 2 < length h" using parent_less [of i] i by simp
    then show "key ((h @ [x]) ! ((i - 1) div 2)) \<le> key ((h @ [x]) ! i)"
      using assms i il by (simp add: nth_append is_heap_def heap_upto_def)
  next
    fix i assume i: "0 < i \<and> i < ?n \<and> (i - 1) div 2 = length h \<and> 0 < length h"
    then have "(i - 1) div 2 < i" using parent_less [of i] by simp
    with i have False by simp
    then show "key ((h @ [x]) ! ((length h - 1) div 2)) \<le> key ((h @ [x]) ! i)" ..
  qed
  have "heap_upto key (up key (h @ [x]) (length h)) ?n"
    by (rule up_heap [OF ex]) simp_all
  moreover have "length (up key (h @ [x]) (length h)) = ?n"
    using up_props [of "length h" "h @ [x]" key] by simp
  ultimately show ?thesis
    by (simp add: heap_Push_def is_heap_def)
qed

lemma heap_Pop_props:
  assumes ne: "h \<noteq> []" and hp: "is_heap key h"
  shows "mset h = add_mset (hd h) (mset (heap_Pop key h))"
    and "is_heap key (heap_Pop key h)"
proof -
  let ?n = "length h - 1"
  let ?h = "hSwap h 0 ?n"
  let ?d = "down key ?h 0 ?n"
  have n: "?n < length h" using ne by (cases h) auto
  have dp: "length ?d = length h" "mset ?d = mset ?h" "\<forall>k. ?n \<le> k \<longrightarrow> ?d ! k = ?h ! k"
    using down_props [of ?n ?h key 0] by simp_all
  have hs: "mset ?h = mset h" using n by (intro mset_hSwap) auto
  have z0: "0 < length h" using ne by simp
  have last: "?d ! ?n = hd h"
    using dp(3) nth_hSwap [OF z0 n n] ne by (simp add: hd_conv_nth)
  have dne: "?d \<noteq> []" using dp(1) ne by auto
  have "?d = butlast ?d @ [last ?d]" using dne by simp
  moreover have "last ?d = ?d ! ?n" using dne dp(1) by (simp add: last_conv_nth)
  ultimately have split: "?d = butlast ?d @ [hd h]" using last by simp
  have "mset ?d = add_mset (hd h) (mset (butlast ?d))"
    by (subst split) simp
  then show "mset h = add_mset (hd h) (mset (heap_Pop key h))"
    using dp(2) hs by (simp add: heap_Pop_def Let_def)
  have ex: "heap_except_down key ?h ?n 0"
    unfolding heap_except_down_def
  proof (intro conjI allI impI)
    fix c assume c: "0 < c \<and> c < ?n \<and> (c - 1) div 2 \<noteq> 0"
    then have pc: "(c - 1) div 2 < c" using parent_less [of c] by simp
    have z: "0 < length h" using ne by simp
    have cl: "c < length h" "(c - 1) div 2 < length h" using c pc by auto
    have "?h ! c = h ! c" using c nth_hSwap [OF z n cl(1)] by simp
    moreover have "?h ! ((c - 1) div 2) = h ! ((c - 1) div 2)"
      using c pc nth_hSwap [OF z n cl(2)] by simp
    moreover have "key (h ! ((c - 1) div 2)) \<le> key (h ! c)"
      using hp c cl(1) by (simp add: is_heap_def heap_upto_def)
    ultimately show "key (?h ! ((c - 1) div 2)) \<le> key (?h ! c)" by simp
  next
    fix c assume "0 < c \<and> c < ?n \<and> (c - 1) div 2 = 0 \<and> 0 < (0::nat)"
    then show "key (?h ! ((0 - 1) div 2)) \<le> key (?h ! c)" by simp
  qed
  have "heap_upto key ?d ?n"
    by (rule down_heap [OF ex]) simp
  then have "heap_upto key (butlast ?d) ?n"
    using dp(1) parent_less
    by (auto simp: heap_upto_def nth_butlast)
  then show "is_heap key (heap_Pop key h)"
    using dp(1) by (simp add: heap_Pop_def Let_def is_heap_def)
qed


section \<open>Properties of the cron service\<close>

lemma snd_Now: "snd (Now env w) = clock_after env 1 w"
  by (simp add: Now_def clock_after_def split: prod.splits)

lemma snd_calculateNextRun: "snd (calculateNextRun env s w) = clock_after env 1 w"
  by (simp add: calculateNextRun_def Now_def clock_after_def split: prod.splits)

lemma clock_after_add: "clock_after env n (clock_after env m w) = clock_after env (n + m) w"
  by (simp add: clock_after_def funpow_add)

lemma run_due_single:
  assumes "single_shot (jobStore c (hd (heap c)))"
  shows "run_due env c =
     c\<lparr>heap := heap_Pop (job_key (jobStore c)) (heap c),
       launchedJobs := launchedJobs c @ [(hd (heap c), jobStore c (hd (heap c)))],
       jobs := (jobs c)(jID (jobStore c (hd (heap c))) := None)\<rparr>"
  using assms by (simp add: run_due_def Let_def single_shot_def)

lemma run_due_periodic:
  assumes "\<not> single_shot (jobStore c (hd (heap c)))"
  shows "run_due env c =
     c\<lparr>heap := heap_Push
           (job_key ((jobStore c)(hd (heap c) := (jobStore c (hd (heap c)))
              \<lparr>jNextRun := fst (calculateNextRun env (jSchedule (jobStore c (hd (heap c)))) (cworld c))\<rparr>)))
           (heap_Pop (job_key (jobStore c)) (heap c)) (hd (heap c)),
       launchedJobs := launchedJobs c @ [(hd (heap c), jobStore c (hd (heap c)))],
       jobStore := (jobStore c)(hd (heap c) := (jobStore c (hd (heap c)))
              \<lparr>jNextRun := fst (calculateNextRun env (jSchedule (jobStore c (hd (heap c)))) (cworld c))\<rparr>),
       cworld := clock_after env 1 (cworld c)\<rparr>"
  using assms snd_calculateNextRun [of env "jSchedule (jobStore c (hd (heap c)))" "cworld c"]
  by (auto simp: run_due_def Let_def single_shot_def split: prod.splits)

lemma heap_Pop_set:
  assumes "h \<noteq> []" "is_heap key h" "distinct h"
  shows "set (heap_Pop key h) = set h - {hd h}" and "distinct (heap_Pop key h)"
proof -
  have "mset h = add_mset (hd h) (mset (heap_Pop key h))"
    using assms(1,2) by (rule heap_Pop_props)
  then have m: "mset h = mset (hd h # heap_Pop key h)" by simp
  then have "distinct (hd h # heap_Pop key h)"
    using assms(3) mset_eq_imp_distinct_iff by blast
  then have notin: "hd h \<notin> set (heap_Pop key h)" and dd: "distinct (heap_Pop key h)"
    by simp_all
  from dd show "distinct (heap_Pop key h)" .
  have "set h = set (hd h # heap_Pop key h)"
    using m by (rule mset_eq_setD)
  with notin show "set (heap_Pop key h) = set h - {hd h}" by auto
qed

lemma job_key_upd: "q \<noteq> p \<Longrightarrow> job_key (store(p := j)) q = job_key store q"
  by (simp add: job_key_def)

lemma run_due_props:
  assumes wf: "cron_wf c" and ne: "heap c \<noteq> []"
  shows "cron_wf (run_due env c)"
    and "set (heap (run_due env c))
         = (if single_shot (jobStore c (hd (heap c))) then set (heap c) - {hd (heap c)} else set (heap c))"
    and "launchedJobs (run_due env c) = launchedJobs c @ [(hd (heap c), jobStore c (hd (heap c)))]"
    and "q \<noteq> hd (heap c) \<Longrightarrow> jobStore (run_due env c) q = jobStore c q"
    and "jID (jobStore (run_due env c) q) = jID (jobStore c q)"
    and "jSchedule (jobStore (run_due env c) q) = jSchedule (jobStore c q)"
    and "jDeleteAfterRun (jobStore (run_due env c) q) = jDeleteAfterRun (jobStore c q)"
proof -
  let ?item = "hd (heap c)"
  let ?key = "job_key (jobStore c)"
  let ?h1 = "heap_Pop ?key (heap c)"
  from wf have d: "distinct (heap c)" and hp: "is_heap ?key (heap c)"
    and keyed: "\<forall>k p. jobs c k = Some p \<longrightarrow> jID (jobStore c p) = k"
    by (simp_all add: cron_wf_def)
  have s1: "set ?h1 = set (heap c) - {?item}" and d1: "distinct ?h1"
    using heap_Pop_set [OF ne hp d] by simp_all
  have hp1: "is_heap ?key ?h1" using ne hp by (rule heap_Pop_props)
  show "launchedJobs (run_due env c) = launchedJobs c @ [(?item, jobStore c ?item)]"
    by (cases "single_shot (jobStore c ?item)") (simp_all add: run_due_single run_due_periodic)
  show "q \<noteq> ?item \<Longrightarrow> jobStore (run_due env c) q = jobStore c q"
    by (cases "single_shot (jobStore c ?item)") (simp_all add: run_due_single run_due_periodic)
  show "jID (jobStore (run_due env c) q) = jID (jobStore c q)"
    by (cases "single_shot (jobStore c ?item)") (simp_all add: run_due_single run_due_periodic)
  show "jSchedule (jobStore (run_due env c) q) = jSchedule (jobStore c q)"
    by (cases "single_shot (jobStore c ?item)") (simp_all add: run_due_single run_due_periodic)
  show "jDeleteAfterRun (jobStore (run_due env c) q) = jDeleteAfterRun (jobStore c q)"
    by (cases "single_shot (jobStore c ?item)") (simp_all add: run_due_single run_due_periodic)
  show "set (heap (run_due env c))
         = (if single_shot (jobStore c ?item) then set (heap c) - {?item} else set (heap c))"
  proof (cases "single_shot (jobStore c ?item)")
    case True
    then show ?thesis using s1 by (simp add: run_due_single)
  next
    case False
    have "?item \<in> set (heap c)" using ne by simp
    moreover have "\<And>k. set (heap_Push k ?h1 ?item) = insert ?item (set ?h1)"
      using heap_Push_mset by (metis set_mset_add_mset_insert set_mset_mset)
    ultimately show ?thesis using False s1 by (auto simp: run_due_periodic)
  qed
  show "cron_wf (run_due env c)"
  proof (cases "single_shot (jobStore c ?item)")
    case True
    then show ?thesis
      using d1 hp1 keyed by (simp add: run_due_single cron_wf_def)
  next
    case False
    let ?store = "(jobStore c)(?item := (jobStore c ?item)
        \<lparr>jNextRun := fst (calculateNextRun env (jSchedule (jobStore c ?item)) (cworld c))\<rparr>)"
    have notin: "?item \<notin> set ?h1" using s1 by simp
    have "heap_upto (job_key ?store) ?h1 (length ?h1) = heap_upto ?key ?h1 (length ?h1)"
      by (rule heap_upto_cong) (use notin in \<open>auto simp: job_key_def\<close>)
    with hp1 have "is_heap (job_key ?store) ?h1" by (simp add: is_heap_def)
    then have hp2: "is_heap (job_key ?store) (heap_Push (job_key ?store) ?h1 ?item)"
      by (rule heap_Push_is_heap)
    have "mset (heap_Push (job_key ?store) ?h1 ?item) = add_mset ?item (mset ?h1)"
      by (rule heap_Push_mset)
    then have d2: "distinct (heap_Push (job_key ?store) ?h1 ?item)"
      using d1 notin by (metis distinct.simps(2) mset.simps(2) mset_eq_imp_distinct_iff)
    show ?thesis
      using False hp2 d2 keyed by (simp add: run_due_periodic cron_wf_def)
  qed
qed


lemma root_min_job:
  assumes "cron_wf c" and "q \<in> set (heap c)"
  shows "job_key (jobStore c) (hd (heap c)) \<le> job_key (jobStore c) q"
proof -
  from assms(2) obtain i where i: "i < length (heap c)" "heap c ! i = q"
    by (auto simp: in_set_conv_nth)
  have "heap_upto (job_key (jobStore c)) (heap c) (length (heap c))"
    using assms(1) by (simp add: cron_wf_def is_heap_def)
  from heap_upto_root_min [OF this i(1)] i(2) assms(2) show ?thesis
    by (cases "heap c") (auto simp: hd_conv_nth)
qed

lemma top_due:
  assumes "cron_wf c" and "q \<in> set (heap c)" and "due now (jobStore c q)"
  shows "\<not> After (jNextRun (jobStore c (hd (heap c)))) now"
  using root_min_job [OF assms(1,2)] assms(3) by (simp add: due_def After_def job_key_def)

lemma loop_exit:
  "heap c = [] \<or> After (jNextRun (jobStore c (hd (heap c)))) now \<Longrightarrow>
   checkAndRun_loop (Suc k) env now c = Some c"
  by auto

lemma loop_round:
  "heap c \<noteq> [] \<Longrightarrow> \<not> After (jNextRun (jobStore c (hd (heap c)))) now \<Longrightarrow>
   checkAndRun_loop (Suc k) env now c = checkAndRun_loop k env now (run_due env c)"
  by simp

lemma fired_run_due:
  assumes "cron_wf c" and "heap c \<noteq> []"
  shows "fired p (run_due env c) = (if p = hd (heap c) then Suc (fired p c) else fired p c)"
  using run_due_props(3) [OF assms, where env = env] by (simp add: fired_def)

lemma loop_static:
  "checkAndRun_loop k env now c = Some c' \<Longrightarrow> cron_wf c \<Longrightarrow>
   cron_wf c' \<and> jID (jobStore c' q) = jID (jobStore c q)
   \<and> jSchedule (jobStore c' q) = jSchedule (jobStore c q)
   \<and> jDeleteAfterRun (jobStore c' q) = jDeleteAfterRun (jobStore c q)
   \<and> (\<forall>p \<in> set (heap c'). After (jNextRun (jobStore c' p)) now)"
proof (induction k arbitrary: c)
  case 0
  then show ?case by simp
next
  case (Suc k)
  show ?case
  proof (cases "heap c = [] \<or> After (jNextRun (jobStore c (hd (heap c)))) now")
    case True
    from loop_exit [OF True, of k env] Suc.prems(1) have eq: "c' = c" by simp
    have "\<forall>p \<in> set (heap c). After (jNextRun (jobStore c p)) now"
    proof
      fix p assume p: "p \<in> set (heap c)"
      with True have "After (jNextRun (jobStore c (hd (heap c)))) now" by auto
      with root_min_job [OF Suc.prems(2) p] show "After (jNextRun (jobStore c p)) now"
        by (simp add: After_def job_key_def)
    qed
    with eq Suc.prems show ?thesis by simp
  next
    case False
    then have ne: "heap c \<noteq> []" by simp
    from False Suc.prems have run: "checkAndRun_loop k env now (run_due env c) = Some c'"
      by simp
    note P = run_due_props [OF Suc.prems(2) ne, where env = env]
    from Suc.IH [OF run P(1)] P(5,6,7) [where q = q] show ?thesis by simp
  qed
qed

lemma loop_jobs_none:
  "checkAndRun_loop k env now c = Some c' \<Longrightarrow> jobs c key = None \<Longrightarrow> jobs c' key = None"
proof (induction k arbitrary: c)
  case 0
  then show ?case by simp
next
  case (Suc k)
  show ?case
  proof (cases "heap c = [] \<or> After (jNextRun (jobStore c (hd (heap c)))) now")
    case True
    from loop_exit [OF True, of k env] Suc.prems(1) have "c' = c" by simp
    with Suc.prems show ?thesis by simp
  next
    case False
    with Suc.prems have run: "checkAndRun_loop k env now (run_due env c) = Some c'"
      by simp
    have "jobs (run_due env c) key = None"
      using Suc.prems(2)
      by (cases "single_shot (jobStore c (hd (heap c)))")
        (simp_all add: run_due_single run_due_periodic)
    from Suc.IH [OF run this] show ?thesis .
  qed
qed

lemma loop_out:
  "checkAndRun_loop k env now c = Some c' \<Longrightarrow> cron_wf c \<Longrightarrow> p \<notin> set (heap c) \<Longrightarrow>
   p \<notin> set (heap c') \<and> fired p c' = fired p c \<and> jobStore c' p = jobStore c p"
proof (induction k arbitrary: c)
  case 0
  then show ?case by simp
next
  case (Suc k)
  show ?case
  proof (cases "heap c = [] \<or> After (jNextRun (jobStore c (hd (heap c)))) now")
    case True
    from loop_exit [OF True, of k env] Suc.prems(1) have "c' = c" by simp
    with Suc.prems show ?thesis by simp
  next
    case False
    then have ne: "heap c \<noteq> []" by simp
    from False Suc.prems have run: "checkAndRun_loop k env now (run_due env c) = Some c'"
      by simp
    note P = run_due_props [OF Suc.prems(2) ne, where env = env]
    have top: "p \<noteq> hd (heap c)" using Suc.prems(3) ne by auto
    have "p \<notin> set (heap (run_due env c))" using P(2) Suc.prems(3) by (auto split: if_splits)
    from Suc.IH [OF run P(1) this] P(4) [OF top] fired_run_due [OF Suc.prems(2) ne, where p = p and env = env] top
    show ?thesis by simp
  qed
qed

lemma loop_not_due:
  "checkAndRun_loop k env now c = Some c' \<Longrightarrow> cron_wf c \<Longrightarrow> p \<in> set (heap c) \<Longrightarrow>
   \<not> due now (jobStore c p) \<Longrightarrow>
   p \<in> set (heap c') \<and> fired p c' = fired p c \<and> jobStore c' p = jobStore c p"
proof (induction k arbitrary: c)
  case 0
  then show ?case by simp
next
  case (Suc k)
  show ?case
  proof (cases "heap c = [] \<or> After (jNextRun (jobStore c (hd (heap c)))) now")
    case True
    from loop_exit [OF True, of k env] Suc.prems(1) have "c' = c" by simp
    with Suc.prems show ?thesis by simp
  next
    case False
    then have ne: "heap c \<noteq> []" by simp
    from False Suc.prems have run: "checkAndRun_loop k env now (run_due env c) = Some c'"
      by simp
    note P = run_due_props [OF Suc.prems(2) ne, where env = env]
    have top: "p \<noteq> hd (heap c)" using Suc.prems(4) False by (auto simp: due_def)
    have in1: "p \<in> set (heap (run_due env c))" using P(2) Suc.prems(3) top by (auto split: if_splits)
    have nd: "\<not> due now (jobStore (run_due env c) p)" using P(4) [OF top] Suc.prems(4) by simp
    from Suc.IH [OF run P(1) in1 nd] P(4) [OF top] fired_run_due [OF Suc.prems(2) ne, where p = p and env = env] top
    show ?thesis by simp
  qed
qed

lemma loop_at:
  "checkAndRun_loop k env now c = Some c' \<Longrightarrow> cron_wf c \<Longrightarrow> p \<in> set (heap c) \<Longrightarrow>
   Kind (jSchedule (jobStore c p)) = ''at'' \<Longrightarrow> due now (jobStore c p) \<Longrightarrow>
   p \<notin> set (heap c') \<and> fired p c' = Suc (fired p c) \<and> jobs c' (jID (jobStore c p)) = None"
proof (induction k arbitrary: c)
  case 0
  then show ?case by simp
next
  case (Suc k)
  have ne: "heap c \<noteq> []" using Suc.prems(3) by auto
  have td: "\<not> After (jNextRun (jobStore c (hd (heap c)))) now"
    using Suc.prems(2,3,5) by (rule top_due)
  with ne Suc.prems(1) have run: "checkAndRun_loop k env now (run_due env c) = Some c'"
    by simp
  note P = run_due_props [OF Suc.prems(2) ne, where env = env]
  show ?case
  proof (cases "p = hd (heap c)")
    case True
    then have ss: "single_shot (jobStore c (hd (heap c)))"
      using Suc.prems(4) by (simp add: single_shot_def)
    then have out: "p \<notin> set (heap (run_due env c))" using P(2) True by simp
    have jn: "jobs (run_due env c) (jID (jobStore c p)) = None"
      using ss True by (simp add: run_due_single)
    from loop_out [OF run P(1) out] loop_jobs_none [OF run jn]
      fired_run_due [OF Suc.prems(2) ne, where p = p and env = env] True
    show ?thesis by simp
  next
    case False
    have in1: "p \<in> set (heap (run_due env c))" using P(2) Suc.prems(3) False by (auto split: if_splits)
    have st: "jobStore (run_due env c) p = jobStore c p" using P(4) [OF False] .
    from Suc.IH [OF run P(1) in1] st Suc.prems(4,5) fired_run_due [OF Suc.prems(2) ne, where p = p and env = env] False
    show ?thesis by simp
  qed
qed


lemma cworld_run_due:
  "cworld (run_due env c) = clock_after env (if single_shot (jobStore c (hd (heap c))) then 0 else 1) (cworld c)"
  by (cases "single_shot (jobStore c (hd (heap c)))")
    (simp_all add: run_due_single run_due_periodic clock_after_def)

lemma single_shot_run_due:
  assumes "cron_wf c" and "heap c \<noteq> []"
  shows "single_shot (jobStore (run_due env c) q) = single_shot (jobStore c q)"
  using run_due_props(6,7) [OF assms, where env = env and q = q] by (simp add: single_shot_def)

lemma loop_periodic:
  "checkAndRun_loop k env now c = Some c' \<Longrightarrow> cron_wf c \<Longrightarrow> q \<in> set (heap c) \<Longrightarrow>
   \<not> single_shot (jobStore c q) \<Longrightarrow> due now (jobStore c q) \<Longrightarrow>
   q \<in> set (heap c') \<and> fired q c < fired q c'
   \<and> (\<exists>n. jNextRun (jobStore c' q)
          = fst (calculateNextRun env (jSchedule (jobStore c q)) (clock_after env n (cworld c))))"
proof (induction k arbitrary: c)
  case 0
  then show ?case by simp
next
  case (Suc k)
  have ne: "heap c \<noteq> []" using Suc.prems(3) by auto
  have td: "\<not> After (jNextRun (jobStore c (hd (heap c)))) now"
    using Suc.prems(2,3,5) by (rule top_due)
  with ne Suc.prems(1) have run: "checkAndRun_loop k env now (run_due env c) = Some c'"
    by simp
  let ?c1 = "run_due env c"
  note P = run_due_props [OF Suc.prems(2) ne, where env = env]
  have ns1: "\<not> single_shot (jobStore ?c1 q)"
    using Suc.prems(4) by (simp add: single_shot_run_due [OF Suc.prems(2) ne])
  have in1: "q \<in> set (heap ?c1)"
    using P(2) Suc.prems(3,4) by (auto split: if_splits)
  have sched: "jSchedule (jobStore ?c1 q) = jSchedule (jobStore c q)" by (rule P(6))
  have f1: "fired q ?c1 = (if q = hd (heap c) then Suc (fired q c) else fired q c)"
    by (rule fired_run_due [OF Suc.prems(2) ne])
  show ?case
  proof (cases "due now (jobStore ?c1 q)")
    case True
    from Suc.IH [OF run P(1) in1 ns1 True] obtain n where
      IH: "q \<in> set (heap c')" "fired q ?c1 < fired q c'"
        "jNextRun (jobStore c' q)
          = fst (calculateNextRun env (jSchedule (jobStore ?c1 q)) (clock_after env n (cworld ?c1)))"
      by auto
    have "clock_after env n (cworld ?c1)
        = clock_after env (n + (if single_shot (jobStore c (hd (heap c))) then 0 else 1)) (cworld c)"
      by (simp only: cworld_run_due clock_after_add)
    with IH sched f1 show ?thesis
      by (auto split: if_splits)
  next
    case False
    then have top: "q = hd (heap c)"
      using P(4) [of q] Suc.prems(5) by (cases "q = hd (heap c)") simp_all
    from loop_not_due [OF run P(1) in1 False]
    have L: "q \<in> set (heap c')" "fired q c' = fired q ?c1" "jobStore c' q = jobStore ?c1 q"
      by simp_all
    have "jNextRun (jobStore ?c1 q)
        = fst (calculateNextRun env (jSchedule (jobStore c q)) (clock_after env 0 (cworld c)))"
      using top Suc.prems(4) by (simp add: run_due_periodic clock_after_def)
    with L f1 top show ?thesis
      by (metis lessI)
  qed
qed

lemma run_due_mset:
  assumes wf: "cron_wf c" and ne: "heap c \<noteq> []"
  shows "add_mset (hd (heap c)) (mset (heap (run_due env c)))
       = (if single_shot (jobStore c (hd (heap c))) then mset (heap c)
          else add_mset (hd (heap c)) (mset (heap c)))"
proof -
  from wf have hp: "is_heap (job_key (jobStore c)) (heap c)"
    by (simp add: cron_wf_def)
  have m: "mset (heap c) = add_mset (hd (heap c)) (mset (heap_Pop (job_key (jobStore c)) (heap c)))"
    using ne hp by (rule heap_Pop_props)
  show ?thesis
  proof (cases "single_shot (jobStore c (hd (heap c)))")
    case True
    then show ?thesis using m by (simp add: run_due_single)
  next
    case False
    then show ?thesis using m by (simp add: run_due_periodic heap_Push_mset)
  qed
qed


lemma loop_terminates:
  "cron_wf c \<Longrightarrow>
   (\<forall>p \<in> set (heap c). \<not> single_shot (jobStore c p) \<longrightarrow>
      (\<forall>w. After (fst (calculateNextRun env (jSchedule (jobStore c p)) w)) now)) \<Longrightarrow>
   due_count now c < k \<Longrightarrow> \<exists>c'. checkAndRun_loop k env now c = Some c'"
proof (induction k arbitrary: c)
  case 0
  then show ?case by simp
next
  case (Suc k)
  show ?case
  proof (cases "heap c = [] \<or> After (jNextRun (jobStore c (hd (heap c)))) now")
    case True
    then show ?thesis using loop_exit [OF True] by blast
  next
    case False
    then have ne: "heap c \<noteq> []" and td: "due now (jobStore c (hd (heap c)))"
      by (simp_all add: due_def)
    let ?top = "hd (heap c)"
    let ?c1 = "run_due env c"
    note P = run_due_props [OF Suc.prems(1) ne, where env = env]
    have d: "distinct (heap c)" using Suc.prems(1) by (simp add: cron_wf_def)
    have top_in: "?top \<in> set (heap c)" using ne by simp
    have prog1: "\<forall>p \<in> set (heap ?c1). \<not> single_shot (jobStore ?c1 p) \<longrightarrow>
        (\<forall>w. After (fst (calculateNextRun env (jSchedule (jobStore ?c1 p)) w)) now)"
    proof (intro ballI impI)
      fix p assume p: "p \<in> set (heap ?c1)" and ns: "\<not> single_shot (jobStore ?c1 p)"
      have "p \<in> set (heap c)" using p P(2) by (auto split: if_splits)
      moreover have "\<not> single_shot (jobStore c p)"
        using ns by (simp add: single_shot_run_due [OF Suc.prems(1) ne])
      ultimately show "\<forall>w. After (fst (calculateNextRun env (jSchedule (jobStore ?c1 p)) w)) now"
        using Suc.prems(2) P(6) [of p] by simp
    qed
    have rest: "\<And>p. p \<in># mset (heap c) - {#?top#} \<Longrightarrow> jobStore ?c1 p = jobStore c p"
    proof -
      fix p assume "p \<in># mset (heap c) - {#?top#}"
      then have "p \<noteq> ?top" using d top_in
        by (metis distinct_count_atmost_1 count_mset in_diff_count count_single
            less_irrefl_nat zero_less_diff diff_is_0_eq' nat_less_le set_mset_mset)
      then show "jobStore ?c1 p = jobStore c p" by (rule P(4))
    qed
    have split: "mset (heap c) = add_mset ?top (mset (heap c) - {#?top#})"
      using top_in by simp
    have dc: "due_count now c
        = Suc (size (filter_mset (\<lambda>p. due now (jobStore c p)) (mset (heap c) - {#?top#})))"
      unfolding due_count_def by (subst split) (simp add: td)
    have same: "filter_mset (\<lambda>p. due now (jobStore ?c1 p)) (mset (heap c) - {#?top#})
        = filter_mset (\<lambda>p. due now (jobStore c p)) (mset (heap c) - {#?top#})"
      by (rule filter_mset_cong) (simp_all add: rest)
    have "due_count now ?c1 = size (filter_mset (\<lambda>p. due now (jobStore c p)) (mset (heap c) - {#?top#}))"
    proof (cases "single_shot (jobStore c ?top)")
      case True
      then have "mset (heap ?c1) = mset (heap c) - {#?top#}"
        using run_due_mset [OF Suc.prems(1) ne, of env]
        by (metis add_mset_remove_trivial)
      then show ?thesis using same by (simp add: due_count_def)
    next
      case ns: False
      then have m1: "mset (heap ?c1) = add_mset ?top (mset (heap c) - {#?top#})"
        using run_due_mset [OF Suc.prems(1) ne, of env] split by simp
      have "After (jNextRun (jobStore ?c1 ?top)) now"
        using ns Suc.prems(2) top_in by (simp add: run_due_periodic)
      then have "\<not> due now (jobStore ?c1 ?top)" by (simp add: due_def)
      then show ?thesis using same by (simp add: due_count_def m1)
    qed
    with dc Suc.prems(3) have "due_count now ?c1 < k" by simp
    from Suc.IH [OF P(1) prog1 this] loop_round [OF ne] td show ?thesis
      by (simp add: due_def)
  qed
qed


lemma due_count_le: "due_count now c \<le> length (heap c)"
  unfolding due_count_def
  by (metis size_filter_mset_lesseq size_mset)

lemma checkAndRun_unfold:
  "checkAndRun fuel env c
   = checkAndRun_loop fuel env (fst (Now env (cworld c))) (c\<lparr>cworld := clock_after env 1 (cworld c)\<rparr>)"
  using snd_Now [of env "cworld c"] by (auto simp: checkAndRun_def split: prod.splits)

lemma cron_wf_cworld: "cron_wf (c\<lparr>cworld := w\<rparr>) = cron_wf c"
  by (simp add: cron_wf_def)

lemma keyed_not_listed:
  assumes "cron_wf c" and "jobs c (jID (jobStore c p)) = None"
  shows "p \<notin> ListJobs c"
  using assms by (auto simp: ListJobs_def ran_def cron_wf_def)

text \<open>
  What a run of \<open>checkAndRun\<close> that ends has done. In a well-formed service, take a job of
  the heap that is due at the instant \<open>checkAndRun\<close> reads on entry. Whenever \<open>checkAndRun\<close> returns: if the job's schedule kind
  is \<open>at\<close>, exactly one more execution of it has been launched, and it is neither in the
  heap nor under its id in the map nor among the listed jobs, whatever its delete-after-run
  flag; if its kind is another one and delete-after-run is unset, it has been launched, it
  is in the heap again, and its next run is what \<open>calculateNextRun\<close> gives at a later
  reading of the clock, after the instant read on entry. And \<open>checkAndRun\<close> does return,
  within one round per job of the heap, when every recomputed next run is after the
  instant read on entry.
\<close>

lemma checkAndRun_returns_due_jobs:
  assumes wf: "cron_wf c"
    and p: "p \<in> set (heap c)"
    and now: "now = fst (Now env (cworld c))"
    and d: "due now (jobStore c p)"
  shows "(\<forall>fuel c'. checkAndRun fuel env c = Some c' \<longrightarrow>
            (Kind (jSchedule (jobStore c p)) = ''at'' \<longrightarrow>
               fired p c' = Suc (fired p c) \<and> p \<notin> set (heap c')
               \<and> jobs c' (jID (jobStore c p)) = None \<and> p \<notin> ListJobs c')
          \<and> (Kind (jSchedule (jobStore c p)) \<noteq> ''at'' \<and> \<not> jDeleteAfterRun (jobStore c p) \<longrightarrow>
               fired p c < fired p c' \<and> p \<in> set (heap c')
               \<and> After (jNextRun (jobStore c' p)) now
               \<and> (\<exists>n. jNextRun (jobStore c' p)
                      = fst (calculateNextRun env (jSchedule (jobStore c p))
                               (clock_after env (Suc n) (cworld c))))))
       \<and> ((\<forall>q \<in> set (heap c). \<not> single_shot (jobStore c q) \<longrightarrow>
               (\<forall>w. After (fst (calculateNextRun env (jSchedule (jobStore c q)) w)) now))
            \<longrightarrow> (\<exists>c'. checkAndRun (Suc (length (heap c))) env c = Some c'))"
proof (intro conjI allI impI)
  let ?c0 = "c\<lparr>cworld := clock_after env 1 (cworld c)\<rparr>"
  have wf0: "cron_wf ?c0" using wf by (simp add: cron_wf_cworld)
  have p0: "p \<in> set (heap ?c0)" using p by simp
  have d0: "due now (jobStore ?c0 p)" using d by simp
  have f0: "fired p ?c0 = fired p c" by (simp add: fired_def)
  {
    fix fuel c'
    assume run: "checkAndRun fuel env c = Some c'"
    then have loop: "checkAndRun_loop fuel env now ?c0 = Some c'"
      by (simp add: checkAndRun_unfold now)
    note S = loop_static [OF loop wf0, where q = p]
    {
      assume at: "Kind (jSchedule (jobStore c p)) = ''at''"
      then have at0: "Kind (jSchedule (jobStore ?c0 p)) = ''at''" by simp
      from loop_at [OF loop wf0 p0 at0 d0]
      have A: "p \<notin> set (heap c')" "fired p c' = Suc (fired p ?c0)"
        "jobs c' (jID (jobStore ?c0 p)) = None"
        by simp_all
      from A(2) f0 show "fired p c' = Suc (fired p c)" by simp
      from A(1) show "p \<notin> set (heap c')" .
      from A(3) show none: "jobs c' (jID (jobStore c p)) = None" by simp
      have "jID (jobStore c' p) = jID (jobStore c p)" using S by simp
      with none have "jobs c' (jID (jobStore c' p)) = None" by simp
      with S show "p \<notin> ListJobs c'" by (simp add: keyed_not_listed)
    }
    {
      assume per: "Kind (jSchedule (jobStore c p)) \<noteq> ''at'' \<and> \<not> jDeleteAfterRun (jobStore c p)"
      then have ns: "\<not> single_shot (jobStore ?c0 p)" by (simp add: single_shot_def)
      from loop_periodic [OF loop wf0 p0 ns d0] obtain n where
        B: "p \<in> set (heap c')" "fired p ?c0 < fired p c'"
          "jNextRun (jobStore c' p)
            = fst (calculateNextRun env (jSchedule (jobStore ?c0 p))
                    (clock_after env n (cworld ?c0)))"
        by auto
      from B(2) f0 show "fired p c < fired p c'" by simp
      from B(1) show "p \<in> set (heap c')" .
      from S B(1) show "After (jNextRun (jobStore c' p)) now" by simp
      have "clock_after env n (cworld ?c0) = clock_after env (Suc n) (cworld c)"
        by (simp add: clock_after_add)
      with B(3) show "\<exists>n. jNextRun (jobStore c' p)
          = fst (calculateNextRun env (jSchedule (jobStore c p))
                  (clock_after env (Suc n) (cworld c)))"
        by auto
    }
  }
  assume prog: "\<forall>q \<in> set (heap c). \<not> single_shot (jobStore c q) \<longrightarrow>
      (\<forall>w. After (fst (calculateNextRun env (jSchedule (jobStore c q)) w)) now)"
  then have prog0: "\<forall>q \<in> set (heap ?c0). \<not> single_shot (jobStore ?c0 q) \<longrightarrow>
      (\<forall>w. After (fst (calculateNextRun env (jSchedule (jobStore ?c0 q)) w)) now)"
    by simp
  have "due_count now ?c0 < Suc (length (heap c))"
    using due_count_le [of now ?c0] by simp
  from loop_terminates [OF wf0 prog0 this]
  show "\<exists>c'. checkAndRun (Suc (length (heap c))) env c = Some c'"
    by (simp add: checkAndRun_unfold now)
qed


lemma example_cron_wf: "cron_wf example_cron"
  by (auto simp: cron_wf_def example_cron_def is_heap_def heap_upto_def less_Suc_eq
      numeral_2_eq_2 job_key_def example_job_def split: if_splits)

lemma checkAndRun_returns_due_jobs_example:
  "\<exists>c'. checkAndRun 3 example_cron_env example_cron = Some c'
     \<and> fired 0 c' = 1 \<and> 0 \<notin> set (heap c') \<and> 0 \<notin> ListJobs c'
     \<and> 0 < fired 1 c' \<and> 1 \<in> set (heap c')
     \<and> After (jNextRun (jobStore c' 1)) \<lparr>nanos = 5, loc = Local\<rparr>"
proof -
  let ?now = "\<lparr>nanos = 5, loc = Local\<rparr>"
  have now: "?now = fst (Now example_cron_env (cworld example_cron))"
    by (simp add: Now_def example_cron_env_def example_cron_def)
  have d0: "due ?now (jobStore example_cron 0)"
    by (simp add: due_def After_def example_cron_def example_job_def)
  have d1: "due ?now (jobStore example_cron 1)"
    by (simp add: due_def After_def example_cron_def example_job_def)
  have in0: "0 \<in> set (heap example_cron)" and in1: "1 \<in> set (heap example_cron)"
    by (simp_all add: example_cron_def)
  note T0 = checkAndRun_returns_due_jobs [OF example_cron_wf in0 now d0]
  note T1 = checkAndRun_returns_due_jobs [OF example_cron_wf in1 now d1]
  have prog: "\<forall>q \<in> set (heap example_cron). \<not> single_shot (jobStore example_cron q) \<longrightarrow>
      (\<forall>w. After (fst (calculateNextRun example_cron_env (jSchedule (jobStore example_cron q)) w)) ?now)"
    by (simp add: example_cron_def single_shot_def example_job_def example_schedule_def
        calculateNextRun_def Now_def example_cron_env_def Add_def After_def int64_def
        Millisecond_def)
  have len: "Suc (length (heap example_cron)) = 3" by (simp add: example_cron_def)
  from T0 prog len obtain c' where run: "checkAndRun 3 example_cron_env example_cron = Some c'"
    by auto
  have k0: "Kind (jSchedule (jobStore example_cron 0)) = ''at''"
    by (simp add: example_cron_def example_job_def example_schedule_def)
  have k1: "Kind (jSchedule (jobStore example_cron 1)) \<noteq> ''at''
      \<and> \<not> jDeleteAfterRun (jobStore example_cron 1)"
    by (simp add: example_cron_def example_job_def example_schedule_def)
  have f: "fired 0 example_cron = 0" "fired 1 example_cron = 0"
    by (simp_all add: fired_def example_cron_def)
  from T0 run k0 f(1) have "fired 0 c' = 1 \<and> 0 \<notin> set (heap c') \<and> 0 \<notin> ListJobs c'"
    by simp
  moreover from T1 run k1 f(2) have "0 < fired 1 c' \<and> 1 \<in> set (heap c')
      \<and> After (jNextRun (jobStore c' 1)) ?now"
    by simp
  ultimately show ?thesis using run by blast
qed

lemma heap_Push_set: "set (heap_Push key h x) = insert x (set h)"
  using heap_Push_mset [of key h x] by (metis set_mset_mset set_mset_add_mset_insert)

lemma heap_Push_Nil: "heap_Push key [] x = [x]"
  by (simp add: heap_Push_def up_unfold_stop)

lemma calculateNextRun_cron:
  "Kind sched = ''cron'' \<Longrightarrow>
   calculateNextRun env sched w = (calculateCronNextRun env sched (fst (Now env w)), snd (Now env w))"
  by (simp add: calculateNextRun_def split: prod.splits)

lemma loc_Now: "loc (fst (Now env w)) = Local"
  by (simp add: Now_def split: prod.splits)

lemma AddJob_scheduled:
  "p \<in> set (heap (AddJob env p c)) \<and> p \<in> ListJobs (AddJob env p c)
   \<and> jNextRun (jobStore (AddJob env p c) p)
     = fst (calculateNextRun env (jSchedule (jobStore c p)) (snd (Now env (cworld c))))"
  by (auto simp: AddJob_def Let_def heap_Push_set ListJobs_def ran_def split: prod.splits)

lemma run_due_rescheduled:
  assumes "\<not> single_shot (jobStore c (hd (heap c)))"
  shows "hd (heap c) \<in> set (heap (run_due env c)) \<and> jobs (run_due env c) = jobs c
   \<and> jNextRun (jobStore (run_due env c) (hd (heap c)))
     = fst (calculateNextRun env (jSchedule (jobStore c (hd (heap c)))) (cworld c))"
  by (simp add: run_due_periodic [OF assms] heap_Push_set)

text \<open>
  Claim C7. For a schedule of kind \<open>cron\<close>. When the expression does not parse, the next run
  is one hour after the instant read from the clock, and the job stays scheduled: \<open>AddJob\<close>
  puts it in the heap and in the map with that next run, and a round of \<open>checkAndRun\<close> on it
  (delete-after-run unset) pushes it back with that next run and leaves the map as it is.
  When the expression parses, the next run is the schedule's next instant from the clock's
  reading shown in the zone given, if one is given and loads, and from the reading in the
  local zone otherwise.
\<close>

theorem cron_next_run_fallbacks:
  assumes kind: "Kind sched = ''cron''"
  shows "(cronParse env (CronExpr sched) = None \<longrightarrow>
            calculateCronNextRun env sched now = Add now Hour
          \<and> calculateNextRun env sched w = (Add (fst (Now env w)) Hour, snd (Now env w))
          \<and> (jSchedule (jobStore c p) = sched \<longrightarrow>
               p \<in> set (heap (AddJob env p c)) \<and> p \<in> ListJobs (AddJob env p c)
               \<and> jNextRun (jobStore (AddJob env p c) p)
                 = Add (fst (Now env (snd (Now env (cworld c))))) Hour)
          \<and> (heap r \<noteq> [] \<and> jSchedule (jobStore r (hd (heap r))) = sched
               \<and> \<not> jDeleteAfterRun (jobStore r (hd (heap r))) \<longrightarrow>
               hd (heap r) \<in> set (heap (run_due env r)) \<and> jobs (run_due env r) = jobs r
               \<and> jNextRun (jobStore (run_due env r) (hd (heap r)))
                 = Add (fst (Now env (cworld r))) Hour))
       \<and> (\<forall>s. cronParse env (CronExpr sched) = Some s \<longrightarrow>
            (\<forall>l. TZ sched \<noteq> [] \<and> LoadLocation env (TZ sched) = Some l \<longrightarrow>
               fst (calculateNextRun env sched w) = cronNext env s (In (fst (Now env w)) l)
               \<and> loc (In (fst (Now env w)) l) = l)
          \<and> (TZ sched = [] \<or> LoadLocation env (TZ sched) = None \<longrightarrow>
               fst (calculateNextRun env sched w) = cronNext env s (fst (Now env w))
               \<and> loc (fst (Now env w)) = Local))"
proof (intro conjI allI impI)
  {
    assume bad: "cronParse env (CronExpr sched) = None"
    then show hour: "calculateCronNextRun env sched now = Add now Hour"
      by (simp add: calculateCronNextRun_def)
    from bad show calc: "calculateNextRun env sched w = (Add (fst (Now env w)) Hour, snd (Now env w))"
      by (simp add: calculateNextRun_cron [OF kind] calculateCronNextRun_def)
    have calc': "\<And>v. fst (calculateNextRun env sched v) = Add (fst (Now env v)) Hour"
      using bad by (simp add: calculateNextRun_cron [OF kind] calculateCronNextRun_def)
    {
      assume "jSchedule (jobStore c p) = sched"
      with AddJob_scheduled [of p env c] calc'
      show "p \<in> set (heap (AddJob env p c))" "p \<in> ListJobs (AddJob env p c)"
        "jNextRun (jobStore (AddJob env p c) p) = Add (fst (Now env (snd (Now env (cworld c))))) Hour"
        by simp_all
    }
    {
      assume r: "heap r \<noteq> [] \<and> jSchedule (jobStore r (hd (heap r))) = sched
          \<and> \<not> jDeleteAfterRun (jobStore r (hd (heap r)))"
      with kind have "\<not> single_shot (jobStore r (hd (heap r)))"
        by (simp add: single_shot_def)
      from run_due_rescheduled [OF this, of env] r calc'
      show "hd (heap r) \<in> set (heap (run_due env r))" "jobs (run_due env r) = jobs r"
        "jNextRun (jobStore (run_due env r) (hd (heap r))) = Add (fst (Now env (cworld r))) Hour"
        by simp_all
    }
  }
  fix s
  assume ok: "cronParse env (CronExpr sched) = Some s"
  {
    fix l
    assume "TZ sched \<noteq> [] \<and> LoadLocation env (TZ sched) = Some l"
    with ok show "fst (calculateNextRun env sched w) = cronNext env s (In (fst (Now env w)) l)"
      by (simp add: calculateNextRun_cron [OF kind] calculateCronNextRun_def)
    show "loc (In (fst (Now env w)) l) = l" by (simp add: In_def)
  }
  {
    assume "TZ sched = [] \<or> LoadLocation env (TZ sched) = None"
    with ok show "fst (calculateNextRun env sched w) = cronNext env s (fst (Now env w))"
      by (auto simp: calculateNextRun_cron [OF kind] calculateCronNextRun_def)
    show "loc (fst (Now env w)) = Local" by (rule loc_Now)
  }
qed


theorem cron_next_run_fallbacks_witness:
  "calculateNextRun example_cron_env (example_schedule ''cron'' ''every minute'' []) 5
     = (\<lparr>nanos = 3600000000005, loc = Local\<rparr>, 6)
   \<and> 0 \<in> set (heap (AddJob example_cron_env 0 (example_cron_new ''every minute'' [])))
   \<and> 0 \<in> ListJobs (AddJob example_cron_env 0 (example_cron_new ''every minute'' []))
   \<and> jNextRun (jobStore (AddJob example_cron_env 0 (example_cron_new ''every minute'' [])) 0)
     = \<lparr>nanos = 3600000000006, loc = Local\<rparr>
   \<and> 0 \<in> set (heap (run_due example_cron_env
                       (AddJob example_cron_env 0 (example_cron_new ''every minute'' []))))
   \<and> jNextRun (jobStore (run_due example_cron_env
                           (AddJob example_cron_env 0 (example_cron_new ''every minute'' []))) 0)
     = \<lparr>nanos = 3600000000007, loc = Local\<rparr>
   \<and> fst (calculateNextRun example_cron_env (example_schedule ''cron'' ''* * * * *'' ''UTC'') 5)
     = \<lparr>nanos = 60000000005, loc = UTC\<rparr>
   \<and> fst (calculateNextRun example_cron_env (example_schedule ''cron'' ''* * * * *'' ''Mars'') 5)
     = \<lparr>nanos = 60000000005, loc = Local\<rparr>"
proof -
  let ?bad = "example_schedule ''cron'' ''every minute'' []"
  let ?c = "example_cron_new ''every minute'' []"
  let ?r = "AddJob example_cron_env 0 ?c"
  have c: "jSchedule (jobStore ?c 0) = ?bad" "cworld ?c = 5"
    by (simp_all add: example_cron_new_def NewCronService_def example_job_def)
  have r: "heap ?r = [0]" "cworld ?r = 7" "jSchedule (jobStore ?r 0) = ?bad"
    "\<not> jDeleteAfterRun (jobStore ?r 0)"
    by (simp_all add: AddJob_def Let_def example_cron_new_def NewCronService_def example_job_def
        heap_Push_Nil Now_def calculateNextRun_def example_cron_env_def split: prod.splits)
  have k: "\<And>e z. Kind (example_schedule ''cron'' e z) = ''cron''"
    by (simp add: example_schedule_def)
  have n: "\<And>w. Now example_cron_env w = (\<lparr>nanos = int w, loc = Local\<rparr>, Suc w)"
    by (simp add: Now_def example_cron_env_def)
  note A = cron_next_run_fallbacks [OF k, where e1 = "''every minute''" and z1 = "[]"
      and env = example_cron_env and w = 5 and c = ?c and p = 0 and r = ?r and now = zero_Time]
  note B = cron_next_run_fallbacks [OF k, where e1 = "''* * * * *''" and z1 = "''UTC''"
      and env = example_cron_env and w = 5 and c = ?c and p = 0 and r = ?r and now = zero_Time]
  note C = cron_next_run_fallbacks [OF k, where e1 = "''* * * * *''" and z1 = "''Mars''"
      and env = example_cron_env and w = 5 and c = ?c and p = 0 and r = ?r and now = zero_Time]
  have pa: "cronParse example_cron_env (CronExpr ?bad) = None"
    by (simp add: example_cron_env_def example_schedule_def)
  from A pa c r n have
    "calculateNextRun example_cron_env ?bad 5 = (\<lparr>nanos = 3600000000005, loc = Local\<rparr>, 6)"
    "0 \<in> set (heap ?r)" "0 \<in> ListJobs ?r"
    "jNextRun (jobStore ?r 0) = \<lparr>nanos = 3600000000006, loc = Local\<rparr>"
    "0 \<in> set (heap (run_due example_cron_env ?r))"
    "jNextRun (jobStore (run_due example_cron_env ?r) 0) = \<lparr>nanos = 3600000000007, loc = Local\<rparr>"
    by (simp_all add: Add_def Hour_def)
  moreover from B n have
    "fst (calculateNextRun example_cron_env (example_schedule ''cron'' ''* * * * *'' ''UTC'') 5)
       = \<lparr>nanos = 60000000005, loc = UTC\<rparr>"
    by (simp add: example_cron_env_def example_schedule_def Add_def In_def)
  moreover from C n have
    "fst (calculateNextRun example_cron_env (example_schedule ''cron'' ''* * * * *'' ''Mars'') 5)
       = \<lparr>nanos = 60000000005, loc = Local\<rparr>"
    by (simp add: example_cron_env_def example_schedule_def Add_def In_def)
  ultimately show ?thesis by simp
qed


lemma cron_wf_New: "cron_wf (NewCronService store w)"
  by (simp add: cron_wf_def NewCronService_def is_heap_def heap_upto_def)

lemma cron_wf_AddJob:
  assumes wf: "cron_wf c" and fresh: "p \<notin> set (heap c)" "p \<notin> ran (jobs c)"
  shows "cron_wf (AddJob env p c)"
proof -
  obtain now w1 where n: "Now env (cworld c) = (now, w1)" by (cases "Now env (cworld c)")
  let ?j1 = "(jobStore c p)\<lparr>jID := ''job_'' @ fmt_d (nanos now), jCreatedAt := now\<rparr>"
  obtain t w2 where t: "calculateNextRun env (jSchedule ?j1) w1 = (t, w2)"
    by (cases "calculateNextRun env (jSchedule ?j1) w1")
  let ?j2 = "?j1\<lparr>jNextRun := t\<rparr>"
  let ?store = "(jobStore c)(p := ?j2)"
  let ?h = "heap_Push (job_key ?store) (heap c) p"
  have eq: "AddJob env p c
      = c\<lparr>jobStore := ?store, jobs := (jobs c)(jID ?j2 \<mapsto> p), heap := ?h, cworld := w2\<rparr>"
    using n t by (simp add: AddJob_def Let_def)
  from wf have d: "distinct (heap c)" and hp: "is_heap (job_key (jobStore c)) (heap c)"
    and km: "\<And>k q. jobs c k = Some q \<Longrightarrow> jID (jobStore c q) = k"
    by (simp_all add: cron_wf_def)
  have "mset ?h = mset (p # heap c)" by (simp add: heap_Push_mset)
  moreover have "distinct (p # heap c)" using d fresh(1) by simp
  ultimately have d': "distinct ?h" using mset_eq_imp_distinct_iff by blast
  have "\<And>q. q \<in> set (heap c) \<Longrightarrow> job_key ?store q = job_key (jobStore c) q"
    using fresh(1) by (auto simp: job_key_def)
  from heap_upto_cong [OF this, where n = "length (heap c)"] hp
  have "is_heap (job_key ?store) (heap c)" by (simp add: is_heap_def)
  then have hp': "is_heap (job_key ?store) ?h" by (rule heap_Push_is_heap)
  have km': "\<And>k q. ((jobs c)(jID ?j2 \<mapsto> p)) k = Some q \<Longrightarrow> jID (?store q) = k"
  proof -
    fix k q assume a: "((jobs c)(jID ?j2 \<mapsto> p)) k = Some q"
    show "jID (?store q) = k"
    proof (cases "k = jID ?j2")
      case True
      with a show ?thesis by simp
    next
      case False
      with a have j: "jobs c k = Some q" by simp
      then have "q \<in> ran (jobs c)" by (rule ranI)
      with fresh(2) have "q \<noteq> p" by auto
      with km [OF j] show ?thesis by simp
    qed
  qed
  show ?thesis
    unfolding eq cron_wf_def using d' hp' km' by simp
qed

subsection \<open>A run of the loop that does not end\<close>

lemma heap_Pop_two: "heap_Pop key [a, b] = [b]"
  by (simp add: heap_Pop_def hSwap_def down_unfold_stop)

lemma heap_Push_one: "key x < key y \<Longrightarrow> heap_Push key [y] x = [x, y]"
proof -
  assume lt: "key x < key y"
  have "up key [y, x] 1 = up key (hSwap [y, x] 0 1) 0"
    using lt up_unfold_step [of 1 key "[y, x]"] by (simp add: hLess_def)
  also have "\<dots> = hSwap [y, x] 0 1"
    by (rule up_unfold_stop) simp
  finally show ?thesis by (simp add: heap_Push_def hSwap_def)
qed

lemma int64_example: "int64 (10000000000000 * Millisecond) = - 8446744073709551616"
  by (simp add: int64_def Millisecond_def)

lemma loop_spins:
  "(\<forall>i<k. heap (after_rounds env i c) \<noteq> []
      \<and> \<not> After (jNextRun (jobStore (after_rounds env i c) (hd (heap (after_rounds env i c))))) now)
   \<Longrightarrow> checkAndRun_loop k env now c = None"
proof (induction k arbitrary: c)
  case 0
  then show ?case by simp
next
  case (Suc k)
  from Suc.prems [rule_format, of 0]
  have top: "heap c \<noteq> []" "\<not> After (jNextRun (jobStore c (hd (heap c)))) now"
    by (simp_all add: after_rounds_def)
  have "\<forall>i<k. heap (after_rounds env i (run_due env c)) \<noteq> []
      \<and> \<not> After (jNextRun (jobStore (after_rounds env i (run_due env c))
            (hd (heap (after_rounds env i (run_due env c)))))) now"
  proof (intro allI impI)
    fix i assume "i < k"
    then have "Suc i < Suc k" by simp
    from Suc.prems [rule_format, OF this]
    show "heap (after_rounds env i (run_due env c)) \<noteq> []
      \<and> \<not> After (jNextRun (jobStore (after_rounds env i (run_due env c))
            (hd (heap (after_rounds env i (run_due env c)))))) now"
      by (simp add: after_rounds_def funpow_swap1)
  qed
  from Suc.IH [OF this] top show ?case by simp
qed


lemma example_every_next:
  "calculateNextRun example_cron_env
     ((example_schedule ''every'' [] [])\<lparr>EveryMs := 10000000000000\<rparr>) w
   = (\<lparr>nanos = int w - 8446744073709551616, loc = Local\<rparr>, Suc w)"
  by (simp add: calculateNextRun_def Now_def example_cron_env_def example_schedule_def
      Add_def int64_example)

lemma starved_round:
  assumes h: "heap c = [q, p]"
    and s: "jSchedule (jobStore c q) = (example_schedule ''every'' [] [])\<lparr>EveryMs := 10000000000000\<rparr>"
    and f: "\<not> jDeleteAfterRun (jobStore c q)"
    and lt: "int (cworld c) - 8446744073709551616 < nanos (jNextRun (jobStore c p))"
    and ne: "q \<noteq> p"
  shows "run_due example_cron_env c =
     c\<lparr>heap := [q, p],
       launchedJobs := launchedJobs c @ [(q, jobStore c q)],
       jobStore := (jobStore c)(q := (jobStore c q)
          \<lparr>jNextRun := \<lparr>nanos = int (cworld c) - 8446744073709551616, loc = Local\<rparr>\<rparr>),
       cworld := Suc (cworld c)\<rparr>"
proof -
  have ns: "\<not> single_shot (jobStore c (hd (heap c)))"
    using h s f by (simp add: single_shot_def example_schedule_def)
  let ?store = "(jobStore c)(q := (jobStore c q)
          \<lparr>jNextRun := \<lparr>nanos = int (cworld c) - 8446744073709551616, loc = Local\<rparr>\<rparr>)"
  have "job_key ?store q < job_key ?store p"
    using lt ne by (simp add: job_key_def)
  then have push: "heap_Push (job_key ?store) [p] q = [q, p]"
    by (rule heap_Push_one)
  have w: "clock_after example_cron_env (Suc 0) (cworld c) = Suc (cworld c)"
    by (simp add: clock_after_def example_cron_env_def)
  show ?thesis
    by (simp add: run_due_periodic [OF ns] h s example_every_next heap_Pop_two push w)
qed

lemma starved_rounds:
  "k \<le> 8000000000000000000 \<Longrightarrow>
   heap (after_rounds example_cron_env k (example_starved\<lparr>cworld := 6\<rparr>)) = [1, 0]
   \<and> cworld (after_rounds example_cron_env k (example_starved\<lparr>cworld := 6\<rparr>)) = 6 + k
   \<and> jobs (after_rounds example_cron_env k (example_starved\<lparr>cworld := 6\<rparr>)) = jobs example_starved
   \<and> jobStore (after_rounds example_cron_env k (example_starved\<lparr>cworld := 6\<rparr>)) 0
     = jobStore example_starved 0
   \<and> jSchedule (jobStore (after_rounds example_cron_env k (example_starved\<lparr>cworld := 6\<rparr>)) 1)
     = (example_schedule ''every'' [] [])\<lparr>EveryMs := 10000000000000\<rparr>
   \<and> \<not> jDeleteAfterRun (jobStore (after_rounds example_cron_env k (example_starved\<lparr>cworld := 6\<rparr>)) 1)
   \<and> nanos (jNextRun (jobStore (after_rounds example_cron_env k (example_starved\<lparr>cworld := 6\<rparr>)) 1))
     \<le> int k + 5 - 8446744073709551616
   \<and> fired 0 (after_rounds example_cron_env k (example_starved\<lparr>cworld := 6\<rparr>)) = 0
   \<and> fired 1 (after_rounds example_cron_env k (example_starved\<lparr>cworld := 6\<rparr>)) = k"
proof (induction k)
  case 0
  show ?case
    by (simp add: after_rounds_def example_starved_def example_job_def fired_def)
next
  case (Suc k)
  let ?c = "after_rounds example_cron_env k (example_starved\<lparr>cworld := 6\<rparr>)"
  from Suc have IH: "heap ?c = [1, 0]" "cworld ?c = 6 + k" "jobs ?c = jobs example_starved"
    "jobStore ?c 0 = jobStore example_starved 0"
    "jSchedule (jobStore ?c 1) = (example_schedule ''every'' [] [])\<lparr>EveryMs := 10000000000000\<rparr>"
    "\<not> jDeleteAfterRun (jobStore ?c 1)"
    "fired 0 ?c = 0" "fired 1 ?c = k"
    by simp_all
  have z: "nanos (jNextRun (jobStore example_starved 0)) = 0"
    by (simp add: example_starved_def example_job_def)
  have lt: "int (cworld ?c) - 8446744073709551616 < nanos (jNextRun (jobStore ?c 0))"
    using Suc.prems by (simp add: IH(2,4) z)
  have step: "after_rounds example_cron_env (Suc k) (example_starved\<lparr>cworld := 6\<rparr>)
      = run_due example_cron_env ?c"
    by (simp add: after_rounds_def)
  show ?case
    unfolding step starved_round [OF IH(1) IH(5) IH(6) lt one_neq_zero]
    using IH by (simp add: fired_def)
qed


lemma example_starved_wf: "cron_wf example_starved"
  by (auto simp: cron_wf_def example_starved_def is_heap_def heap_upto_def less_Suc_eq
      numeral_2_eq_2 job_key_def example_job_def split: if_splits)

text \<open>
  Claim C5. The loop of \<open>checkAndRun\<close> can keep a due \<open>at\<close> job from ever being fired. In
  the well-formed service \<open>example_starved\<close> the \<open>at\<close> job at pointer 0 is due when
  \<open>checkAndRun\<close> reads the clock. The \<open>every\<close> job beside it has an interval whose \<open>int64\<close>
  nanoseconds wrap negative, so each next run computed for it is still due and earlier than
  the \<open>at\<close> job's: in each of the first \<open>8 * 10^18\<close> rounds the loop pops, launches and
  pushes back the \<open>every\<close> job. \<open>checkAndRun\<close> has not returned, no execution of the \<open>at\<close>
  job has been launched, and the \<open>at\<close> job is still in the heap and among the listed jobs.
\<close>

theorem checkAndRun_starves_at_job:
  "cron_wf example_starved
   \<and> 0 \<in> set (heap example_starved)
   \<and> Kind (jSchedule (jobStore example_starved 0)) = ''at''
   \<and> due (fst (Now example_cron_env (cworld example_starved))) (jobStore example_starved 0)
   \<and> (\<forall>k \<le> 8000000000000000000.
        checkAndRun k example_cron_env example_starved = None
        \<and> fired 0 (after_rounds example_cron_env k (example_starved\<lparr>cworld := 6\<rparr>)) = 0
        \<and> fired 1 (after_rounds example_cron_env k (example_starved\<lparr>cworld := 6\<rparr>)) = k
        \<and> 0 \<in> set (heap (after_rounds example_cron_env k (example_starved\<lparr>cworld := 6\<rparr>)))
        \<and> 0 \<in> ListJobs (after_rounds example_cron_env k (example_starved\<lparr>cworld := 6\<rparr>)))"
proof (intro conjI allI impI)
  show "cron_wf example_starved" by (rule example_starved_wf)
  show "0 \<in> set (heap example_starved)" by (simp add: example_starved_def)
  show "Kind (jSchedule (jobStore example_starved 0)) = ''at''"
    by (simp add: example_starved_def example_job_def example_schedule_def)
  show "due (fst (Now example_cron_env (cworld example_starved))) (jobStore example_starved 0)"
    by (simp add: due_def After_def Now_def example_cron_env_def example_starved_def
        example_job_def)
next
  fix k :: nat
  assume k: "k \<le> 8000000000000000000"
  let ?c0 = "example_starved\<lparr>cworld := 6\<rparr>"
  let ?now = "\<lparr>nanos = 5, loc = Local\<rparr>"
  note R = starved_rounds [OF k]
  from R show "fired 0 (after_rounds example_cron_env k ?c0) = 0"
    and "fired 1 (after_rounds example_cron_env k ?c0) = k"
    and "0 \<in> set (heap (after_rounds example_cron_env k ?c0))"
    by simp_all
  have "jobs example_starved ''a'' = Some 0" by (simp add: example_starved_def)
  then have "0 \<in> ran (jobs example_starved)" by (rule ranI)
  with R show "0 \<in> ListJobs (after_rounds example_cron_env k ?c0)"
    by (simp add: ListJobs_def)
  have spin: "\<forall>i<k. heap (after_rounds example_cron_env i ?c0) \<noteq> []
      \<and> \<not> After (jNextRun (jobStore (after_rounds example_cron_env i ?c0)
            (hd (heap (after_rounds example_cron_env i ?c0))))) ?now"
  proof (intro allI impI)
    fix i assume "i < k"
    with k have "i \<le> 8000000000000000000" by simp
    from starved_rounds [OF this]
    have "heap (after_rounds example_cron_env i ?c0) = [1, 0]"
      and "nanos (jNextRun (jobStore (after_rounds example_cron_env i ?c0) 1))
        \<le> int i + 5 - 8446744073709551616"
      by simp_all
    with \<open>i \<le> 8000000000000000000\<close>
    show "heap (after_rounds example_cron_env i ?c0) \<noteq> []
      \<and> \<not> After (jNextRun (jobStore (after_rounds example_cron_env i ?c0)
            (hd (heap (after_rounds example_cron_env i ?c0))))) ?now"
      by (simp add: After_def)
  qed
  have "checkAndRun k example_cron_env example_starved
      = checkAndRun_loop k example_cron_env ?now ?c0"
    by (simp add: checkAndRun_def Now_def example_cron_env_def example_starved_def)
  with loop_spins [OF spin]
  show "checkAndRun k example_cron_env example_starved = None" by simp
qed

theorem checkAndRun_starves_at_job_witness:
  "checkAndRun 3 example_cron_env example_starved = None
   \<and> fired 0 (after_rounds example_cron_env 3 (example_starved\<lparr>cworld := 6\<rparr>)) = 0
   \<and> fired 1 (after_rounds example_cron_env 3 (example_starved\<lparr>cworld := 6\<rparr>)) = 3
   \<and> 0 \<in> ListJobs (after_rounds example_cron_env 3 (example_starved\<lparr>cworld := 6\<rparr>))"
  using checkAndRun_starves_at_job by simp

end
